theory Spec2Isabelle
  imports Main "HOL-Library.Word"
begin

section \<open>The raft proposal quota of a replica\<close>

text \<open>
  A shallow embedding of \<^verbatim>\<open>pkg/kv/kvserver/replica_proposal_quota.go\<close>:
  the proposer's entry point \<^verbatim>\<open>maybeAcquireProposalQuota\<close>, the range policy
  \<^verbatim>\<open>quotaPoolEnabledForRange\<close> and the per-tick handler
  \<^verbatim>\<open>updateProposalQuotaRaftMuLocked\<close>. The fields of \<^verbatim>\<open>r.mu\<close> that the
  three functions read or write are one record, the handler takes the record and
  returns the updated one, and every \<^verbatim>\<open>log.Fatal\<close> and runtime panic of the
  source is a value of the type \<open>fatal\<close>.
\<close>

subsection \<open>Indices, identities, time\<close>

text \<open>
  \<^verbatim>\<open>kvpb.RaftIndex\<close> and \<^verbatim>\<open>raftpb.PeerID\<close> are \<^verbatim>\<open>uint64\<close>,
  \<^verbatim>\<open>roachpb.ReplicaID\<close> is \<^verbatim>\<open>int32\<close>; the conversion
  \<^verbatim>\<open>roachpb.ReplicaID(id)\<close> keeps the low 32 bits. Only equality is used on
  replica identities, so the sign plays no role. Wall-clock times and durations are
  integers (nanoseconds); \<^verbatim>\<open>time.Time{}\<close> is \<open>zeroTime\<close>.
\<close>

type_synonym RaftIndex = "64 word"
type_synonym PeerID = "64 word"
type_synonym ReplicaID = "32 word"
type_synonym Time = int
type_synonym Duration = int

definition zeroTime :: Time where
  "zeroTime = 0"

definition toReplicaID :: "PeerID \<Rightarrow> ReplicaID" where
  "toReplicaID pid = ucast pid"

subsection \<open>The token pool\<close>

text \<open>
  The package \<^verbatim>\<open>pkg/util/quotapool\<close> is not among the sources at hand. The pool is
  an object on the heap that the replica, the proposers and the allocations point to;
  the heap of pools is a list and a pointer is an index into it, so that a new pool
  has an address no earlier pool had.
\<close>

record IntPool =
  poolName :: string
  poolCapacity :: "64 word"
  poolQuota :: "64 word"
  poolClosed :: "string option"

record IntAlloc =
  allocAmount :: "64 word"
  allocPool :: nat

text \<open>
  Modelled from the spec: \<^verbatim>\<open>quotapool.NewIntPool\<close> is missing; "a fresh pool of
  capacity C is allocated", a bounded counting semaphore whose tokens are all free.
\<close>

definition NewIntPool :: "string \<Rightarrow> 64 word \<Rightarrow> IntPool" where
  "NewIntPool nm c =
     \<lparr>poolName = nm, poolCapacity = c, poolQuota = c, poolClosed = None\<rparr>"

text \<open>
  Modelled from the spec: \<^verbatim>\<open>IntPool.Close\<close> is missing; "Fails all present and
  future waiters with Closed(reason). Idempotent."
\<close>

definition Close :: "string \<Rightarrow> IntPool \<Rightarrow> IntPool" where
  "Close reason p =
     (case poolClosed p of
        None \<Rightarrow> p\<lparr>poolClosed := Some reason\<rparr>
      | Some _ \<Rightarrow> p)"

text \<open>
  Modelled from the spec: \<^verbatim>\<open>IntPool.Release\<close> is missing; "Returns the tokens.
  Accepts allocations that were created under an earlier incarnation of the pool; such
  allocations are discarded without effect", and it is a "no-op under closed pool".
  A \<^verbatim>\<open>nil\<close> allocation (\<open>None\<close>) carries no tokens. The first argument is the
  address of the pool released to.
\<close>

fun releasable :: "nat \<Rightarrow> IntAlloc option list \<Rightarrow> 64 word" where
  "releasable a [] = 0"
| "releasable a (None # as) = releasable a as"
| "releasable a (Some al # as) =
     (if allocPool al = a then allocAmount al + releasable a as else releasable a as)"

definition Release :: "nat \<Rightarrow> IntAlloc option list \<Rightarrow> IntPool \<Rightarrow> IntPool" where
  "Release a allocs p =
     (case poolClosed p of
        None \<Rightarrow> p\<lparr>poolQuota := poolQuota p + releasable a allocs\<rparr>
      | Some _ \<Rightarrow> p)"

text \<open>The heap of pools: a method call through a pointer updates the object in place.\<close>

definition onPool :: "nat \<Rightarrow> (IntPool \<Rightarrow> IntPool) \<Rightarrow> IntPool list \<Rightarrow> IntPool list" where
  "onPool a f h = (if a < length h then h[a := f (h ! a)] else h)"

subsection \<open>Range descriptor, raft status and progress\<close>

record ReplicaDescriptor =
  descReplicaID :: ReplicaID

record RangeDescriptor =
  StartKey :: "8 word list"
  InternalReplicas :: "ReplicaDescriptor list"

text \<open>
  Modelled from the spec: \<^verbatim>\<open>GetReplicaDescriptorByID\<close> is missing; the peer is
  looked up "in the current membership", and the first descriptor with the identity
  is returned.
\<close>

definition GetReplicaDescriptorByID ::
  "RangeDescriptor \<Rightarrow> ReplicaID \<Rightarrow> ReplicaDescriptor option" where
  "GetReplicaDescriptorByID d rid =
     find (\<lambda>rep. descReplicaID rep = rid) (InternalReplicas d)"

record BasicStatus =
  Applied :: "64 word"
  Commit :: "64 word"

record Progress =
  Match :: "64 word"

record RawNode =
  basicStatus :: BasicStatus
  progressOf :: "(PeerID \<times> Progress) list"

text \<open>
  Modelled from the spec: \<^verbatim>\<open>WithProgress\<close> is missing; it "enumerates
  (peerID, state, matchIndex) for every peer", calling the visitor on each in turn
  (\<open>Visit\<close> is the iteration over the peers). The visitor of the tick handler
  ignores the state, which is left out.
\<close>

fun Visit ::
  "(PeerID \<Rightarrow> Progress \<Rightarrow> 's \<Rightarrow> 's) \<Rightarrow> (PeerID \<times> Progress) list \<Rightarrow> 's \<Rightarrow> 's" where
  "Visit visit [] s = s"
| "Visit visit ((pid, pr) # ps) s = Visit visit ps (visit pid pr s)"

definition WithProgress ::
  "RawNode \<Rightarrow> (PeerID \<Rightarrow> Progress \<Rightarrow> 's \<Rightarrow> 's) \<Rightarrow> 's \<Rightarrow> 's" where
  "WithProgress g visit s = Visit visit (progressOf g) s"

subsection \<open>Liveness of followers\<close>

text \<open>
  Modelled from the spec: \<^verbatim>\<open>isFollowerActiveSince\<close> is missing; "A peer is live iff
  now - lastUpdateTimes[p] <= L_lease", a live peer being "one whose lastUpdateTimes
  entry is within one lease duration of now". The map is \<open>None\<close> when it is
  \<^verbatim>\<open>nil\<close>.
\<close>

definition isFollowerActiveSince ::
  "(ReplicaID \<rightharpoonup> Time) option \<Rightarrow> ReplicaID \<Rightarrow> Time \<Rightarrow> Duration \<Rightarrow> bool" where
  "isFollowerActiveSince m rid now threshold =
     (case m of
        None \<Rightarrow> False
      | Some upd \<Rightarrow>
          (case upd rid of
             None \<Rightarrow> False
           | Some lastUpdateTime \<Rightarrow> now - lastUpdateTime \<le> threshold))"

text \<open>
  Modelled from the spec: \<^verbatim>\<open>updateOnBecomeLeader\<close> is missing; the map is "seeded
  with now for every member".
\<close>

fun updateOnBecomeLeader ::
  "ReplicaDescriptor list \<Rightarrow> Time \<Rightarrow> (ReplicaID \<rightharpoonup> Time) \<Rightarrow> (ReplicaID \<rightharpoonup> Time)" where
  "updateOnBecomeLeader [] now m = m"
| "updateOnBecomeLeader (d # ds) now m =
     updateOnBecomeLeader ds now (m(descReplicaID d \<mapsto> now))"

subsection \<open>The replica\<close>

record StoreConfig =
  RaftProposalQuota :: "64 word"
  RangeLeaseDuration :: Duration
  enableRaftProposalQuota :: bool

datatype flowControlCall = OnBecameLeader | OnBecameFollower | OnRaftTicked

text \<open>
  The handler calls methods of a pool through its pointer, and the object outlives
  the pointer of the replica: proposers that wait in \<^verbatim>\<open>Acquire\<close> hold it too.
  The replica keeps the calls it has made, each with the address of the pool, in the
  order of the calls.
\<close>

datatype poolCall =
    CallClose nat string
  | CallRelease nat "IntAlloc option list"

record Replica =
  replicaID :: ReplicaID
  leaderID :: ReplicaID
  proposalQuota :: "nat option"
  proposalQuotaBaseIndex :: RaftIndex
  quotaReleaseQueue :: "IntAlloc option list"
  lastUpdateTimes :: "(ReplicaID \<rightharpoonup> Time) option"
  pausedFollowers :: "ReplicaID set"
  lastReplicaAdded :: ReplicaID
  lastReplicaAddedTime :: Time
  lastProposalAtTicks :: int
  ticks :: int
  stateDesc :: RangeDescriptor
  internalRaftGroup :: RawNode
  storeCfg :: StoreConfig
  replicaFlowControlIntegration :: "flowControlCall list"
  pools :: "IntPool list"
  poolCalls :: "poolCall list"

datatype fatal =
    FatalProposalQuotaNotNil
  | FatalReleaseQueueLen nat
  | FatalLeaderUninitializedPool
  | FatalReleasableIndex RaftIndex nat RaftIndex RaftIndex
  | PanicSliceBounds

subsection \<open>The tick handler\<close>

text \<open>
  The visitor passed to \<^verbatim>\<open>WithProgress\<close>. It closes over \<^verbatim>\<open>minIndex\<close> and
  the replica, so its state is the pair of both; each \<^verbatim>\<open>return\<close> leaves the
  pair as it is.
\<close>

definition visitProgress ::
  "Time \<Rightarrow> RaftIndex \<Rightarrow> PeerID \<Rightarrow> Progress \<Rightarrow> Replica \<times> RaftIndex \<Rightarrow> Replica \<times> RaftIndex" where
  "visitProgress now commitIndex pid progress s =
     (case s of (r, minIndex) \<Rightarrow>
       (case GetReplicaDescriptorByID (stateDesc r) (toReplicaID pid) of
          None \<Rightarrow> (r, minIndex)
        | Some rep \<Rightarrow>
            if \<not> isFollowerActiveSince (lastUpdateTimes r) (descReplicaID rep) now
                   (RangeLeaseDuration (storeCfg r))
            then (r, minIndex)
            else if Match progress < proposalQuotaBaseIndex r then (r, minIndex)
            else if toReplicaID pid \<in> pausedFollowers r then (r, minIndex)
            else
              (let minIndex' =
                     (if Match progress > 0 \<and> Match progress < minIndex
                      then Match progress else minIndex);
                   r' =
                     (if descReplicaID rep = lastReplicaAdded r \<and> Match progress \<ge> commitIndex
                      then r\<lparr>lastReplicaAdded := 0, lastReplicaAddedTime := zeroTime\<rparr>
                      else r)
               in (r', minIndex'))))"

text \<open>
  The release of the prefix. The slice expressions
  \<^verbatim>\<open>quotaReleaseQueue[:numReleases]\<close> and \<^verbatim>\<open>quotaReleaseQueue[numReleases:]\<close>
  panic when \<^verbatim>\<open>numReleases\<close> is beyond the queue: the first when it is beyond the
  capacity of the slice, the second when it is beyond its length, so the pair panics
  exactly when \<^verbatim>\<open>numReleases > len(quotaReleaseQueue)\<close>.
\<close>

definition releasePrefix :: "nat \<Rightarrow> RaftIndex \<Rightarrow> Replica \<Rightarrow> fatal + Replica" where
  "releasePrefix pool minIndex r =
     (if proposalQuotaBaseIndex r < minIndex then
        (let numReleases = minIndex - proposalQuotaBaseIndex r in
         if length (quotaReleaseQueue r) < unat numReleases then Inl PanicSliceBounds
         else Inr (r\<lparr>pools := onPool pool
                                (Release pool (take (unat numReleases) (quotaReleaseQueue r)))
                                (pools r),
                      poolCalls := poolCalls r @
                        [CallRelease pool (take (unat numReleases) (quotaReleaseQueue r))],
                      quotaReleaseQueue := drop (unat numReleases) (quotaReleaseQueue r),
                      proposalQuotaBaseIndex := proposalQuotaBaseIndex r + numReleases\<rparr>))
      else Inr r)"

text \<open>The assertion on the base index and the queue, and the tick of the flow control.\<close>

definition assertReleasable :: "Replica \<Rightarrow> fatal + Replica" where
  "assertReleasable r =
     (let releasableIndex =
            proposalQuotaBaseIndex r + of_nat (length (quotaReleaseQueue r));
          applied = Applied (basicStatus (internalRaftGroup r))
      in if releasableIndex \<noteq> applied
         then Inl (FatalReleasableIndex (proposalQuotaBaseIndex r)
                     (length (quotaReleaseQueue r)) releasableIndex applied)
         else Inr (r\<lparr>replicaFlowControlIntegration :=
                       replicaFlowControlIntegration r @ [OnRaftTicked]\<rparr>))"

text \<open>The three paths of the handler, named after the comments of the source.\<close>

definition becomingLeader :: "Time \<Rightarrow> Replica \<Rightarrow> fatal + Replica" where
  "becomingLeader now r =
     (let status = basicStatus (internalRaftGroup r);
          r1 = r\<lparr>proposalQuotaBaseIndex := Applied status\<rparr>
      in if proposalQuota r1 \<noteq> None then Inl FatalProposalQuotaNotNil
         else if length (quotaReleaseQueue r1) \<noteq> 0
         then Inl (FatalReleaseQueueLen (length (quotaReleaseQueue r1)))
         else Inr (r1\<lparr>proposalQuota := Some (length (pools r1)),
                       pools := pools r1 @
                         [NewIntPool ''raft proposal'' (RaftProposalQuota (storeCfg r1))],
                       lastUpdateTimes :=
                         Some (updateOnBecomeLeader (InternalReplicas (stateDesc r1)) now
                                 Map.empty),
                       replicaFlowControlIntegration :=
                         replicaFlowControlIntegration r1 @ [OnBecameLeader],
                       lastProposalAtTicks := ticks r1\<rparr>))"

definition becomingFollower :: "nat \<Rightarrow> Replica \<Rightarrow> Replica" where
  "becomingFollower pool r =
     r\<lparr>pools := onPool pool (Release pool (quotaReleaseQueue r))
                  (onPool pool (Close ''leader change'') (pools r)),
       poolCalls := poolCalls r @
         [CallClose pool ''leader change'', CallRelease pool (quotaReleaseQueue r)],
       quotaReleaseQueue := [],
       proposalQuota := None,
       lastUpdateTimes := None,
       replicaFlowControlIntegration :=
         replicaFlowControlIntegration r @ [OnBecameFollower]\<rparr>"

definition stillLeader :: "Time \<Rightarrow> nat \<Rightarrow> Replica \<Rightarrow> fatal + Replica" where
  "stillLeader now pool r =
     (let status = basicStatus (internalRaftGroup r);
          commitIndex = Commit status;
          minIndex = Applied status
      in case WithProgress (internalRaftGroup r) (visitProgress now commitIndex) (r, minIndex) of
           (r1, minIndex1) \<Rightarrow>
             (case releasePrefix pool minIndex1 r1 of
                Inl e \<Rightarrow> Inl e
              | Inr r2 \<Rightarrow> assertReleasable r2))"

definition updateProposalQuotaRaftMuLocked ::
  "Time \<Rightarrow> ReplicaID \<Rightarrow> Replica \<Rightarrow> fatal + Replica" where
  "updateProposalQuotaRaftMuLocked now lastLeaderID r =
     (if leaderID r \<noteq> lastLeaderID then
        (if replicaID r = leaderID r then becomingLeader now r
         else (case proposalQuota r of
                 Some pool \<Rightarrow> Inr (becomingFollower pool r)
               | None \<Rightarrow> Inr r))
      else (case proposalQuota r of
              None \<Rightarrow>
                (if replicaID r = leaderID r then Inl FatalLeaderUninitializedPool
                 else Inr r)
            | Some pool \<Rightarrow> stillLeader now pool r))"

subsection \<open>The proposer's entry point\<close>

text \<open>
  \<^verbatim>\<open>keys.NodeLivenessPrefix\<close> is a constant of a package that is not among the
  sources at hand: it is the first parameter of the functions that use it.
\<close>

definition bytesHasPrefix :: "8 word list \<Rightarrow> 8 word list \<Rightarrow> bool" where
  "bytesHasPrefix s pre = (length pre \<le> length s \<and> take (length pre) s = pre)"

definition quotaPoolEnabledForRange :: "8 word list \<Rightarrow> RangeDescriptor \<Rightarrow> bool" where
  "quotaPoolEnabledForRange nodeLivenessPrefix d =
     (\<not> bytesHasPrefix (StartKey d) nodeLivenessPrefix)"

text \<open>
  The errors that reach the entry point form a chain of causes, and
  \<^verbatim>\<open>errors.HasType\<close> with the type of \<^verbatim>\<open>quotapool.ErrClosed\<close> looks for an
  \<^verbatim>\<open>ErrClosed\<close> along the chain.
\<close>

datatype error =
    ErrClosed string
  | ContextCanceled
  | ContextDeadlineExceeded
  | Wrapped string error

fun hasTypeErrClosed :: "error \<Rightarrow> bool" where
  "hasTypeErrClosed (ErrClosed _) = True"
| "hasTypeErrClosed (Wrapped _ cause) = hasTypeErrClosed cause"
| "hasTypeErrClosed _ = False"

record BatchRequest =
  IsSingleRequestLeaseRequest :: bool
  IsSingleTransferLeaseRequest :: bool

record Context =
  HasSpan :: bool

text \<open>
  What the entry point does to the world besides returning: the trace event, and the
  call of \<^verbatim>\<open>Acquire\<close> on a pool with an amount.
\<close>

datatype effect =
    EventQuotaRunningLow "64 word"
  | CallAcquire nat "64 word"

text \<open>
  \<^verbatim>\<open>IntPool.Acquire\<close> blocks on what other goroutines do: the pair
  \<^verbatim>\<open>(alloc, err)\<close> that it returns in the end is given by a parameter
  \<open>acquire\<close> of the entry point, from the address of the pool and the amount. The
  entry point hands the allocation on as it is and clears the error of a closed pool.
\<close>

definition maybeAcquireProposalQuota ::
  "8 word list \<Rightarrow> (nat \<Rightarrow> 64 word \<Rightarrow> IntAlloc option \<times> error option) \<Rightarrow> Replica \<Rightarrow>
   Context \<Rightarrow> BatchRequest \<Rightarrow> 64 word \<Rightarrow> (IntAlloc option \<times> error option) \<times> effect list" where
  "maybeAcquireProposalQuota nodeLivenessPrefix acquire r ctx ba quota =
     (if IsSingleRequestLeaseRequest ba \<or> IsSingleTransferLeaseRequest ba
      then ((None, None), [])
      else if \<not> enableRaftProposalQuota (storeCfg r) then ((None, None), [])
      else
        (case proposalQuota r of
           None \<Rightarrow> ((None, None), [])
         | Some quotaPool \<Rightarrow>
             if \<not> quotaPoolEnabledForRange nodeLivenessPrefix (stateDesc r)
             then ((None, None), [])
             else
               (let q = poolQuota (pools r ! quotaPool);
                    low = (if HasSpan ctx \<and> q < poolCapacity (pools r ! quotaPool) div 10
                           then [EventQuotaRunningLow q] else []);
                    (alloc, err) = acquire quotaPool quota;
                    err' = (case err of
                              Some e \<Rightarrow> if hasTypeErrClosed e then None else Some e
                            | None \<Rightarrow> None)
                in ((alloc, err'), low @ [CallAcquire quotaPool quota]))))"

subsection \<open>The statements of the specification\<close>

text \<open>
  The global invariant, in the arithmetic of \<^verbatim>\<open>uint64\<close> as the source asserts it.
\<close>

definition quotaInvariant :: "Replica \<Rightarrow> bool" where
  "quotaInvariant r =
     (proposalQuotaBaseIndex r + of_nat (length (quotaReleaseQueue r)) =
      Applied (basicStatus (internalRaftGroup r)))"

text \<open>
  The peers that can hold the quota up, in the words of the specification: a peer of
  the current range descriptor that is live, whose match index is not below the base
  index, that is not paused, and whose match index is positive.
\<close>

definition holdsUpQuota :: "Time \<Rightarrow> Replica \<Rightarrow> PeerID \<times> Progress \<Rightarrow> bool" where
  "holdsUpQuota now r p =
     (toReplicaID (fst p) \<in> descReplicaID ` set (InternalReplicas (stateDesc r)) \<and>
      isFollowerActiveSince (lastUpdateTimes r) (toReplicaID (fst p)) now
        (RangeLeaseDuration (storeCfg r)) \<and>
      proposalQuotaBaseIndex r \<le> Match (snd p) \<and>
      toReplicaID (fst p) \<notin> pausedFollowers r \<and>
      0 < Match (snd p))"

text \<open>
  The peers that the visitor does not skip: the same without the last condition,
  which guards the update of the minimum only.
\<close>

definition notSkipped :: "Time \<Rightarrow> Replica \<Rightarrow> PeerID \<times> Progress \<Rightarrow> bool" where
  "notSkipped now r p =
     (toReplicaID (fst p) \<in> descReplicaID ` set (InternalReplicas (stateDesc r)) \<and>
      isFollowerActiveSince (lastUpdateTimes r) (toReplicaID (fst p)) now
        (RangeLeaseDuration (storeCfg r)) \<and>
      proposalQuotaBaseIndex r \<le> Match (snd p) \<and>
      toReplicaID (fst p) \<notin> pausedFollowers r)"

text \<open>
  The minimum index of the specification: the applied index, lowered to the match
  index of every peer that holds the quota up.
\<close>

definition specMinIndex :: "Time \<Rightarrow> Replica \<Rightarrow> RaftIndex" where
  "specMinIndex now r =
     Min (set (Applied (basicStatus (internalRaftGroup r)) #
               map (\<lambda>p. Match (snd p))
                 (filter (holdsUpQuota now r) (progressOf (internalRaftGroup r)))))"

subsection \<open>Concrete replicas\<close>

text \<open>
  A leader of three replicas that has applied up to index 8 with base index 5: the
  queue holds the allocations of the entries 6, 7 and 8, follower 2 has index 7 and
  follower 3, the replica added last, has index 8.
\<close>

definition leaderAt8 :: Replica where
  "leaderAt8 =
     \<lparr>replicaID = 1, leaderID = 1, proposalQuota = Some 0,
      proposalQuotaBaseIndex = 5,
      quotaReleaseQueue =
        [Some \<lparr>allocAmount = 10, allocPool = 0\<rparr>, None,
         Some \<lparr>allocAmount = 7, allocPool = 0\<rparr>],
      lastUpdateTimes = Some [1 \<mapsto> 100, 2 \<mapsto> 100, 3 \<mapsto> 100],
      pausedFollowers = {},
      lastReplicaAdded = 3, lastReplicaAddedTime = 90,
      lastProposalAtTicks = 0, ticks = 4,
      stateDesc =
        \<lparr>StartKey = [1, 2],
         InternalReplicas =
           [\<lparr>descReplicaID = 1\<rparr>, \<lparr>descReplicaID = 2\<rparr>, \<lparr>descReplicaID = 3\<rparr>]\<rparr>,
      internalRaftGroup =
        \<lparr>basicStatus = \<lparr>Applied = 8, Commit = 8\<rparr>,
         progressOf = [(1, \<lparr>Match = 8\<rparr>), (2, \<lparr>Match = 7\<rparr>), (3, \<lparr>Match = 8\<rparr>)]\<rparr>,
      storeCfg =
        \<lparr>RaftProposalQuota = 100, RangeLeaseDuration = 50,
         enableRaftProposalQuota = True\<rparr>,
      replicaFlowControlIntegration = [],
      pools =
        [\<lparr>poolName = ''raft proposal'', poolCapacity = 100, poolQuota = 83,
          poolClosed = None\<rparr>],
      poolCalls = []\<rparr>"

text \<open>A follower of leader 2 that holds no pool and has applied up to index 8.\<close>

definition followerAt8 :: Replica where
  "followerAt8 =
     leaderAt8\<lparr>leaderID := 2, proposalQuota := None, quotaReleaseQueue := [],
               lastUpdateTimes := None, pools := []\<rparr>"

text \<open>The same follower on the tick where it sees itself elected.\<close>

definition electedAt8 :: Replica where
  "electedAt8 = followerAt8\<lparr>leaderID := 1\<rparr>"

text \<open>The leader on a tick where replica 2 has become the leader.\<close>

definition deposedAt8 :: Replica where
  "deposedAt8 = leaderAt8\<lparr>leaderID := 2\<rparr>"

text \<open>The leader when replica 3 was last heard of at time 10.\<close>

definition leaderOfSilent3 :: Replica where
  "leaderOfSilent3 =
     leaderAt8\<lparr>lastUpdateTimes := Some [1 \<mapsto> 100, 2 \<mapsto> 100, 3 \<mapsto> 10]\<rparr>"

text \<open>
  A value for the prefix of the node liveness keys (the bytes of
  \<^verbatim>\<open>\x04\x00liveness-\<close>), and the leader of a range that starts with it.
\<close>

definition livenessPrefix :: "8 word list" where
  "livenessPrefix = [4, 0, 108, 105, 118, 101, 110, 101, 115, 115, 45]"

definition livenessLeader :: Replica where
  "livenessLeader =
     leaderAt8\<lparr>stateDesc := (stateDesc leaderAt8)\<lparr>StartKey := livenessPrefix @ [1]\<rparr>\<rparr>"

text \<open>
  Two outcomes of \<^verbatim>\<open>Acquire\<close>: the pool was closed by a leader change, and the
  context of the caller was cancelled.
\<close>

definition acquireClosed :: "nat \<Rightarrow> 64 word \<Rightarrow> IntAlloc option \<times> error option" where
  "acquireClosed pool n = (None, Some (ErrClosed ''leader change''))"

definition acquireCanceled :: "nat \<Rightarrow> 64 word \<Rightarrow> IntAlloc option \<times> error option" where
  "acquireCanceled pool n = (None, Some ContextCanceled)"

definition plainBatch :: BatchRequest where
  "plainBatch = \<lparr>IsSingleRequestLeaseRequest = False, IsSingleTransferLeaseRequest = False\<rparr>"

definition tracedContext :: Context where
  "tracedContext = \<lparr>HasSpan = True\<rparr>"

section \<open>The progress scan\<close>

text \<open>
  The visitor changes nothing of the replica but the two fields that track the replica
  added last, and the minimum it computes is the one of the specification.
\<close>

lemma GetReplicaDescriptorByID_Some:
  "GetReplicaDescriptorByID d rid = Some rep \<Longrightarrow> descReplicaID rep = rid"
  by (auto simp: GetReplicaDescriptorByID_def find_Some_iff)

lemma GetReplicaDescriptorByID_None:
  "GetReplicaDescriptorByID d rid = None \<longleftrightarrow> rid \<notin> descReplicaID ` set (InternalReplicas d)"
  by (auto simp: GetReplicaDescriptorByID_def find_None_iff)

lemma holdsUpQuota_tracking [simp]:
  "holdsUpQuota now (r\<lparr>lastReplicaAdded := a, lastReplicaAddedTime := t\<rparr>) p = holdsUpQuota now r p"
  by (simp add: holdsUpQuota_def)

lemma visitProgress_min:
  "snd (visitProgress now c pid pr (r, m)) =
     (if holdsUpQuota now r (pid, pr) then min m (Match pr) else m)"
proof (cases "GetReplicaDescriptorByID (stateDesc r) (toReplicaID pid)")
  case None
  then have "toReplicaID pid \<notin> descReplicaID ` set (InternalReplicas (stateDesc r))"
    by (simp add: GetReplicaDescriptorByID_None)
  with None show ?thesis
    by (simp add: visitProgress_def holdsUpQuota_def)
next
  case (Some rep)
  then have rep: "descReplicaID rep = toReplicaID pid"
    by (rule GetReplicaDescriptorByID_Some)
  from Some have "GetReplicaDescriptorByID (stateDesc r) (toReplicaID pid) \<noteq> None"
    by simp
  then have mem: "toReplicaID pid \<in> descReplicaID ` set (InternalReplicas (stateDesc r))"
    by (simp add: GetReplicaDescriptorByID_None)
  show ?thesis
    using Some rep mem
    by (auto simp: visitProgress_def holdsUpQuota_def Let_def min_def word_gt_0 not_less)
qed

lemma visitProgress_fst:
  "fst (visitProgress now c pid pr (r, m)) =
     r\<lparr>lastReplicaAdded := lastReplicaAdded (fst (visitProgress now c pid pr (r, m))),
       lastReplicaAddedTime := lastReplicaAddedTime (fst (visitProgress now c pid pr (r, m)))\<rparr>"
  by (simp add: visitProgress_def Let_def split: option.splits)

lemma Min_insert_min:
  fixes a :: "'a::linorder"
  assumes "finite S"
  shows "Min (insert (min a b) S) = Min (insert a (insert b S))"
proof (cases "S = {}")
  case True
  then show ?thesis by (simp add: min.commute)
next
  case False
  with assms show ?thesis by (simp add: min.assoc)
qed

lemma Visit_visitProgress_snd:
  "snd (Visit (visitProgress now c) ps (r, m)) =
     Min (set (m # map (\<lambda>p. Match (snd p)) (filter (holdsUpQuota now r) ps)))"
proof (induction ps arbitrary: r m)
  case Nil
  show ?case by simp
next
  case (Cons p ps)
  obtain pid pr where p: "p = (pid, pr)" by (cases p)
  define r' where "r' = fst (visitProgress now c pid pr (r, m))"
  define m' where "m' = snd (visitProgress now c pid pr (r, m))"
  have v: "visitProgress now c pid pr (r, m) = (r', m')"
    by (simp add: r'_def m'_def)
  have r': "r' = r\<lparr>lastReplicaAdded := lastReplicaAdded r', lastReplicaAddedTime := lastReplicaAddedTime r'\<rparr>"
    unfolding r'_def by (rule visitProgress_fst)
  have h: "holdsUpQuota now r' = holdsUpQuota now r"
    by (subst r') (simp add: fun_eq_iff)
  have m': "m' = (if holdsUpQuota now r (pid, pr) then min m (Match pr) else m)"
    unfolding m'_def by (rule visitProgress_min)
  have "snd (Visit (visitProgress now c) (p # ps) (r, m)) = snd (Visit (visitProgress now c) ps (r', m'))"
    by (simp add: p v)
  also have "\<dots> = Min (set (m' # map (\<lambda>p. Match (snd p)) (filter (holdsUpQuota now r) ps)))"
    by (simp only: Cons.IH h)
  also have "\<dots> = Min (set (m # map (\<lambda>p. Match (snd p)) (filter (holdsUpQuota now r) (p # ps))))"
  proof (cases "holdsUpQuota now r (pid, pr)")
    case True
    then show ?thesis
      using Min_insert_min [of "set (map (\<lambda>p. Match (snd p)) (filter (holdsUpQuota now r) ps))" m "Match pr"]
      by (simp add: p m')
  next
    case False
    then show ?thesis by (simp add: p m')
  qed
  finally show ?case .
qed

lemma Visit_visitProgress_fst:
  "fst (Visit (visitProgress now c) ps (r, m)) =
     r\<lparr>lastReplicaAdded := lastReplicaAdded (fst (Visit (visitProgress now c) ps (r, m))),
       lastReplicaAddedTime := lastReplicaAddedTime (fst (Visit (visitProgress now c) ps (r, m)))\<rparr>"
proof (induction ps arbitrary: r m)
  case Nil
  show ?case by simp
next
  case (Cons p ps)
  obtain pid pr where p: "p = (pid, pr)" by (cases p)
  define r' where "r' = fst (visitProgress now c pid pr (r, m))"
  define m' where "m' = snd (visitProgress now c pid pr (r, m))"
  define r'' where "r'' = fst (Visit (visitProgress now c) ps (r', m'))"
  have v: "visitProgress now c pid pr (r, m) = (r', m')"
    by (simp add: r'_def m'_def)
  have r': "r' = r\<lparr>lastReplicaAdded := lastReplicaAdded r', lastReplicaAddedTime := lastReplicaAddedTime r'\<rparr>"
    unfolding r'_def by (rule visitProgress_fst)
  have r'': "r'' = r'\<lparr>lastReplicaAdded := lastReplicaAdded r'', lastReplicaAddedTime := lastReplicaAddedTime r''\<rparr>"
    unfolding r''_def by (rule Cons.IH)
  have "r'' = r\<lparr>lastReplicaAdded := lastReplicaAdded r'', lastReplicaAddedTime := lastReplicaAddedTime r''\<rparr>"
    by (subst r'', subst r') simp
  moreover have "fst (Visit (visitProgress now c) (p # ps) (r, m)) = r''"
    by (simp add: p v r''_def)
  ultimately show ?case by simp
qed


lemma of_nat_drop_len:
  "unat (n :: 64 word) \<le> k \<Longrightarrow> (of_nat (k - unat n) :: 64 word) = of_nat k - n"
  by (simp add: of_nat_diff)

lemma release_within_queue:
  fixes b m a :: "64 word"
  assumes inv: "b + of_nat k = a" and bm: "b < m" and ma: "m \<le> a"
  shows "unat (m - b) \<le> k"
proof -
  have "unat a = (unat b + k) mod 2 ^ 64"
    using inv by (auto simp: unat_word_ariths unat_of_nat mod_add_right_eq)
  then have "unat a \<le> unat b + k"
    by simp
  moreover have "unat m \<le> unat a"
    using ma by (simp add: word_le_nat_alt)
  moreover have "unat (m - b) = unat m - unat b"
    using bm by (simp add: unat_sub word_less_nat_alt word_le_nat_alt)
  ultimately show ?thesis by arith
qed

lemma updateOnBecomeLeader_apply:
  "updateOnBecomeLeader ds now m rid =
     (if rid \<in> descReplicaID ` set ds then Some now else m rid)"
  by (induction ds arbitrary: m) auto


lemma releasePrefix_fields:
  assumes "releasePrefix pool m r = Inr s"
  shows "if proposalQuotaBaseIndex r < m
         then unat (m - proposalQuotaBaseIndex r) \<le> length (quotaReleaseQueue r) \<and>
              pools s = onPool pool
                (Release pool (take (unat (m - proposalQuotaBaseIndex r)) (quotaReleaseQueue r)))
                (pools r) \<and>
              poolCalls s = poolCalls r @
                [CallRelease pool (take (unat (m - proposalQuotaBaseIndex r)) (quotaReleaseQueue r))] \<and>
              quotaReleaseQueue s = drop (unat (m - proposalQuotaBaseIndex r)) (quotaReleaseQueue r) \<and>
              proposalQuotaBaseIndex s = m
         else s = r"
  using assms by (auto simp: releasePrefix_def Let_def split: if_splits)

lemma releasePrefix_invariant:
  assumes "releasePrefix pool m r = Inr s"
  shows "quotaInvariant s = quotaInvariant r"
  using assms
  by (auto simp: releasePrefix_def Let_def quotaInvariant_def of_nat_drop_len not_less
                 add.commute
           split: if_splits)

lemma releasePrefix_Inl:
  "releasePrefix pool m r = Inl e \<longleftrightarrow>
     e = PanicSliceBounds \<and> proposalQuotaBaseIndex r < m \<and>
     length (quotaReleaseQueue r) < unat (m - proposalQuotaBaseIndex r)"
  by (auto simp: releasePrefix_def Let_def)

lemma assertReleasable_Inr:
  "assertReleasable r = Inr s \<longleftrightarrow>
     quotaInvariant r \<and>
     s = r\<lparr>replicaFlowControlIntegration := replicaFlowControlIntegration r @ [OnRaftTicked]\<rparr>"
  by (auto simp: assertReleasable_def Let_def quotaInvariant_def)

lemma assertReleasable_Inl:
  "assertReleasable r = Inl e \<longleftrightarrow>
     \<not> quotaInvariant r \<and>
     e = FatalReleasableIndex (proposalQuotaBaseIndex r) (length (quotaReleaseQueue r))
           (proposalQuotaBaseIndex r + of_nat (length (quotaReleaseQueue r)))
           (Applied (basicStatus (internalRaftGroup r)))"
  by (auto simp: assertReleasable_def Let_def quotaInvariant_def)


lemma stillLeader_unfold:
  "stillLeader now pool r =
     (case releasePrefix pool (specMinIndex now r)
             (fst (Visit (visitProgress now (Commit (basicStatus (internalRaftGroup r))))
                    (progressOf (internalRaftGroup r))
                    (r, Applied (basicStatus (internalRaftGroup r))))) of
        Inl e \<Rightarrow> Inl e
      | Inr r2 \<Rightarrow> assertReleasable r2)"
proof -
  let ?l = "Visit (visitProgress now (Commit (basicStatus (internalRaftGroup r))))
              (progressOf (internalRaftGroup r))
              (r, Applied (basicStatus (internalRaftGroup r)))"
  obtain r1 m1 where l: "?l = (r1, m1)"
    by (cases ?l)
  have "snd ?l = specMinIndex now r"
    by (simp only: Visit_visitProgress_snd specMinIndex_def)
  with l have m1: "m1 = specMinIndex now r"
    by simp
  have "stillLeader now pool r =
          (case releasePrefix pool m1 r1 of Inl e \<Rightarrow> Inl e | Inr r2 \<Rightarrow> assertReleasable r2)"
    using l by (simp add: stillLeader_def WithProgress_def Let_def)
  then show ?thesis
    using l m1 by simp
qed

lemma notSkipped_tracking [simp]:
  "notSkipped now (r\<lparr>lastReplicaAdded := a, lastReplicaAddedTime := t\<rparr>) p = notSkipped now r p"
  by (simp add: notSkipped_def)

lemma visitProgress_tracking:
  "fst (visitProgress now c pid pr (r, m)) =
     (if notSkipped now r (pid, pr) \<and> toReplicaID pid = lastReplicaAdded r \<and> c \<le> Match pr
      then r\<lparr>lastReplicaAdded := 0, lastReplicaAddedTime := zeroTime\<rparr> else r)"
proof (cases "GetReplicaDescriptorByID (stateDesc r) (toReplicaID pid)")
  case None
  then have "toReplicaID pid \<notin> descReplicaID ` set (InternalReplicas (stateDesc r))"
    by (simp add: GetReplicaDescriptorByID_None)
  with None show ?thesis
    by (simp add: visitProgress_def notSkipped_def)
next
  case (Some rep)
  then have rep: "descReplicaID rep = toReplicaID pid"
    by (rule GetReplicaDescriptorByID_Some)
  from Some have "GetReplicaDescriptorByID (stateDesc r) (toReplicaID pid) \<noteq> None"
    by simp
  then have mem: "toReplicaID pid \<in> descReplicaID ` set (InternalReplicas (stateDesc r))"
    by (simp add: GetReplicaDescriptorByID_None)
  show ?thesis
    using Some rep mem
    by (auto simp: visitProgress_def notSkipped_def Let_def not_less)
qed

lemma Visit_cleared_stays:
  assumes "lastReplicaAdded r = 0" and "lastReplicaAddedTime r = zeroTime"
  shows "fst (Visit (visitProgress now c) ps (r, m)) = r"
  using assms
proof (induction ps arbitrary: m)
  case Nil
  show ?case by simp
next
  case (Cons p ps)
  obtain pid pr where p: "p = (pid, pr)" by (cases p)
  have same: "r\<lparr>lastReplicaAdded := 0, lastReplicaAddedTime := zeroTime\<rparr> = r"
    using Cons.prems by (cases r) simp
  have "fst (visitProgress now c pid pr (r, m)) = r"
    by (simp add: visitProgress_tracking same)
  then have "visitProgress now c pid pr (r, m) = (r, snd (visitProgress now c pid pr (r, m)))"
    by (simp add: prod_eq_iff)
  then have "Visit (visitProgress now c) (p # ps) (r, m) =
             Visit (visitProgress now c) ps (r, snd (visitProgress now c pid pr (r, m)))"
    by (simp add: p)
  then show ?case
    using Cons.IH [OF Cons.prems] by simp
qed

lemma Visit_clears:
  assumes "p \<in> set ps" and "notSkipped now r p"
    and "toReplicaID (fst p) = lastReplicaAdded r" and "c \<le> Match (snd p)"
  shows "lastReplicaAdded (fst (Visit (visitProgress now c) ps (r, m))) = 0 \<and>
         lastReplicaAddedTime (fst (Visit (visitProgress now c) ps (r, m))) = zeroTime"
  using assms
proof (induction ps arbitrary: m)
  case Nil
  then show ?case by simp
next
  case (Cons q ps)
  obtain pid pr where q: "q = (pid, pr)" by (cases q)
  let ?r0 = "r\<lparr>lastReplicaAdded := 0, lastReplicaAddedTime := zeroTime\<rparr>"
  define m' where "m' = snd (visitProgress now c pid pr (r, m))"
  show ?case
  proof (cases "notSkipped now r (pid, pr) \<and> toReplicaID pid = lastReplicaAdded r \<and> c \<le> Match pr")
    case True
    then have "fst (visitProgress now c pid pr (r, m)) = ?r0"
      by (simp add: visitProgress_tracking)
    then have "visitProgress now c pid pr (r, m) = (?r0, m')"
      by (simp add: prod_eq_iff m'_def)
    then have "fst (Visit (visitProgress now c) (q # ps) (r, m)) =
               fst (Visit (visitProgress now c) ps (?r0, m'))"
      by (simp add: q)
    also have "\<dots> = ?r0"
      by (rule Visit_cleared_stays) simp_all
    finally show ?thesis by simp
  next
    case False
    have "fst (visitProgress now c pid pr (r, m)) = r"
      by (simp only: visitProgress_tracking False if_False)
    then have "visitProgress now c pid pr (r, m) = (r, m')"
      by (simp add: prod_eq_iff m'_def)
    then have eq: "Visit (visitProgress now c) (q # ps) (r, m) =
               Visit (visitProgress now c) ps (r, m')"
      by (simp add: q)
    from False Cons.prems have "p \<noteq> q"
      by (auto simp: q)
    with Cons.prems have "p \<in> set ps" by simp
    from Cons.IH [OF this Cons.prems(2-4)] show ?thesis
      by (simp only: eq)
  qed
qed

section \<open>The path of a replica that is still the leader\<close>

lemma Visit_keeps:
  "proposalQuotaBaseIndex (fst (Visit (visitProgress now c) ps (r, m))) = proposalQuotaBaseIndex r"
  "quotaReleaseQueue (fst (Visit (visitProgress now c) ps (r, m))) = quotaReleaseQueue r"
  "pools (fst (Visit (visitProgress now c) ps (r, m))) = pools r"
  "poolCalls (fst (Visit (visitProgress now c) ps (r, m))) = poolCalls r"
  "internalRaftGroup (fst (Visit (visitProgress now c) ps (r, m))) = internalRaftGroup r"
  "proposalQuota (fst (Visit (visitProgress now c) ps (r, m))) = proposalQuota r"
  by (subst Visit_visitProgress_fst, simp)+

lemma Visit_keeps_invariant:
  "quotaInvariant (fst (Visit (visitProgress now c) ps (r, m))) = quotaInvariant r"
  by (simp add: quotaInvariant_def Visit_keeps)

lemma specMinIndex_le_applied:
  "specMinIndex now r \<le> Applied (basicStatus (internalRaftGroup r))"
  unfolding specMinIndex_def by (rule Min_le) simp_all

lemma sum_case_Inr:
  "(case x of Inl e \<Rightarrow> Inl e | Inr y \<Rightarrow> f y) = Inr s \<longleftrightarrow> (\<exists>y. x = Inr y \<and> f y = Inr s)"
  by (cases x) simp_all

lemma stillLeader_Inr:
  assumes "stillLeader now pool r = Inr s"
  shows "quotaInvariant r"
    and "quotaInvariant s"
    and "internalRaftGroup s = internalRaftGroup r"
    and "proposalQuota s = proposalQuota r"
    and "if proposalQuotaBaseIndex r < specMinIndex now r
         then unat (specMinIndex now r - proposalQuotaBaseIndex r) \<le> length (quotaReleaseQueue r) \<and>
              pools s = onPool pool
                (Release pool (take (unat (specMinIndex now r - proposalQuotaBaseIndex r))
                   (quotaReleaseQueue r))) (pools r) \<and>
              poolCalls s = poolCalls r @
                [CallRelease pool (take (unat (specMinIndex now r - proposalQuotaBaseIndex r))
                   (quotaReleaseQueue r))] \<and>
              quotaReleaseQueue s =
                drop (unat (specMinIndex now r - proposalQuotaBaseIndex r)) (quotaReleaseQueue r) \<and>
              proposalQuotaBaseIndex s = specMinIndex now r
         else pools s = pools r \<and> poolCalls s = poolCalls r \<and>
              quotaReleaseQueue s = quotaReleaseQueue r \<and>
              proposalQuotaBaseIndex s = proposalQuotaBaseIndex r"
    and "lastReplicaAdded s =
           lastReplicaAdded (fst (Visit (visitProgress now (Commit (basicStatus (internalRaftGroup r))))
              (progressOf (internalRaftGroup r)) (r, Applied (basicStatus (internalRaftGroup r)))))"
    and "lastReplicaAddedTime s =
           lastReplicaAddedTime (fst (Visit (visitProgress now (Commit (basicStatus (internalRaftGroup r))))
              (progressOf (internalRaftGroup r)) (r, Applied (basicStatus (internalRaftGroup r)))))"
proof -
  define r1 where "r1 = fst (Visit (visitProgress now (Commit (basicStatus (internalRaftGroup r))))
              (progressOf (internalRaftGroup r)) (r, Applied (basicStatus (internalRaftGroup r))))"
  from assms obtain r2 where rel: "releasePrefix pool (specMinIndex now r) r1 = Inr r2"
    and asr: "assertReleasable r2 = Inr s"
    unfolding stillLeader_unfold sum_case_Inr r1_def by blast
  from asr have inv2: "quotaInvariant r2"
    and s: "s = r2\<lparr>replicaFlowControlIntegration := replicaFlowControlIntegration r2 @ [OnRaftTicked]\<rparr>"
    by (simp_all add: assertReleasable_Inr)
  have k: "proposalQuotaBaseIndex r1 = proposalQuotaBaseIndex r"
    "quotaReleaseQueue r1 = quotaReleaseQueue r" "pools r1 = pools r"
    "poolCalls r1 = poolCalls r"
    "internalRaftGroup r1 = internalRaftGroup r" "proposalQuota r1 = proposalQuota r"
    unfolding r1_def by (rule Visit_keeps)+
  have "quotaInvariant r1"
    using releasePrefix_invariant [OF rel] inv2 by simp
  then show "quotaInvariant r"
    by (simp add: quotaInvariant_def k)
  show "quotaInvariant s"
    using inv2 by (simp add: s quotaInvariant_def)
  have r2: "internalRaftGroup r2 = internalRaftGroup r1" "proposalQuota r2 = proposalQuota r1"
    "lastReplicaAdded r2 = lastReplicaAdded r1" "lastReplicaAddedTime r2 = lastReplicaAddedTime r1"
    using rel by (auto simp: releasePrefix_def Let_def split: if_splits)
  show "internalRaftGroup s = internalRaftGroup r" "proposalQuota s = proposalQuota r"
    by (simp_all add: s r2 k)
  show "lastReplicaAdded s = lastReplicaAdded r1" "lastReplicaAddedTime s = lastReplicaAddedTime r1"
    by (simp_all add: s r2)
  show "if proposalQuotaBaseIndex r < specMinIndex now r
         then unat (specMinIndex now r - proposalQuotaBaseIndex r) \<le> length (quotaReleaseQueue r) \<and>
              pools s = onPool pool
                (Release pool (take (unat (specMinIndex now r - proposalQuotaBaseIndex r))
                   (quotaReleaseQueue r))) (pools r) \<and>
              poolCalls s = poolCalls r @
                [CallRelease pool (take (unat (specMinIndex now r - proposalQuotaBaseIndex r))
                   (quotaReleaseQueue r))] \<and>
              quotaReleaseQueue s =
                drop (unat (specMinIndex now r - proposalQuotaBaseIndex r)) (quotaReleaseQueue r) \<and>
              proposalQuotaBaseIndex s = specMinIndex now r
         else pools s = pools r \<and> poolCalls s = poolCalls r \<and>
              quotaReleaseQueue s = quotaReleaseQueue r \<and>
              proposalQuotaBaseIndex s = proposalQuotaBaseIndex r"
    using releasePrefix_fields [OF rel] by (simp add: s k split: if_splits)
qed

lemma stillLeader_total:
  assumes "quotaInvariant r"
  shows "\<exists>s. stillLeader now pool r = Inr s"
proof -
  define r1 where "r1 = fst (Visit (visitProgress now (Commit (basicStatus (internalRaftGroup r))))
              (progressOf (internalRaftGroup r)) (r, Applied (basicStatus (internalRaftGroup r))))"
  have k: "proposalQuotaBaseIndex r1 = proposalQuotaBaseIndex r"
    "quotaReleaseQueue r1 = quotaReleaseQueue r"
    unfolding r1_def by (rule Visit_keeps)+
  have inv1: "quotaInvariant r1"
    unfolding r1_def using assms by (simp add: Visit_keeps_invariant)
  have "\<not> (proposalQuotaBaseIndex r1 < specMinIndex now r \<and>
           length (quotaReleaseQueue r1) < unat (specMinIndex now r - proposalQuotaBaseIndex r1))"
  proof
    assume a: "proposalQuotaBaseIndex r1 < specMinIndex now r \<and>
           length (quotaReleaseQueue r1) < unat (specMinIndex now r - proposalQuotaBaseIndex r1)"
    have "unat (specMinIndex now r - proposalQuotaBaseIndex r) \<le> length (quotaReleaseQueue r)"
      using assms a specMinIndex_le_applied [of now r]
      by (intro release_within_queue [where a = "Applied (basicStatus (internalRaftGroup r))"])
         (simp_all add: quotaInvariant_def k)
    with a show False by (simp add: k)
  qed
  then obtain r2 where rel: "releasePrefix pool (specMinIndex now r) r1 = Inr r2"
    using releasePrefix_Inl [of pool "specMinIndex now r" r1]
    by (cases "releasePrefix pool (specMinIndex now r) r1") auto
  have "quotaInvariant r2"
    using releasePrefix_invariant [OF rel] inv1 by simp
  then have "\<exists>s. assertReleasable r2 = Inr s"
    by (simp add: assertReleasable_Inr)
  then show ?thesis
    unfolding stillLeader_unfold r1_def [symmetric] rel by simp
qed

lemma stillLeader_Inl:
  assumes "stillLeader now pool r = Inl e"
  shows "\<not> quotaInvariant r"
    and "e = PanicSliceBounds \<or> (\<exists>b n x. x \<noteq> Applied (basicStatus (internalRaftGroup r)) \<and>
           e = FatalReleasableIndex b n x (Applied (basicStatus (internalRaftGroup r))))"
proof -
  show "\<not> quotaInvariant r"
    using stillLeader_total [of r now pool] assms by auto
  define r1 where "r1 = fst (Visit (visitProgress now (Commit (basicStatus (internalRaftGroup r))))
              (progressOf (internalRaftGroup r)) (r, Applied (basicStatus (internalRaftGroup r))))"
  have k: "internalRaftGroup r1 = internalRaftGroup r"
    unfolding r1_def by (rule Visit_keeps)
  show "e = PanicSliceBounds \<or> (\<exists>b n x. x \<noteq> Applied (basicStatus (internalRaftGroup r)) \<and>
           e = FatalReleasableIndex b n x (Applied (basicStatus (internalRaftGroup r))))"
  proof (cases "releasePrefix pool (specMinIndex now r) r1")
    case (Inl e')
    then have "e = e'"
      using assms unfolding stillLeader_unfold r1_def [symmetric] by simp
    with Inl show ?thesis by (simp add: releasePrefix_Inl)
  next
    case (Inr r2)
    then have asr: "assertReleasable r2 = Inl e"
      using assms unfolding stillLeader_unfold r1_def [symmetric] by simp
    have "internalRaftGroup r2 = internalRaftGroup r"
      using Inr k by (auto simp: releasePrefix_def Let_def split: if_splits)
    with asr show ?thesis
      by (auto simp: assertReleasable_Inl quotaInvariant_def)
  qed
qed

lemma tick_stillLeader:
  "leaderID r = lastLeaderID \<Longrightarrow> proposalQuota r = Some pool \<Longrightarrow>
   updateProposalQuotaRaftMuLocked now lastLeaderID r = stillLeader now pool r"
  by (simp add: updateProposalQuotaRaftMuLocked_def)

lemma updateOnBecomeLeader_empty:
  "updateOnBecomeLeader ds now Map.empty =
     (\<lambda>rid. if rid \<in> descReplicaID ` set ds then Some now else None)"
  by (rule ext) (simp add: updateOnBecomeLeader_apply)

section \<open>A tick of the concrete leader\<close>

lemmas tick_defs =
  updateProposalQuotaRaftMuLocked_def stillLeader_def WithProgress_def visitProgress_def
  GetReplicaDescriptorByID_def isFollowerActiveSince_def toReplicaID_def releasePrefix_def
  assertReleasable_def onPool_def Release_def zeroTime_def Let_def

lemma leaderAt8_tick:
  "updateProposalQuotaRaftMuLocked 120 1 leaderAt8 =
     Inr (leaderAt8\<lparr>lastReplicaAdded := 0, lastReplicaAddedTime := 0,
            pools := [\<lparr>poolName = ''raft proposal'', poolCapacity = 100, poolQuota = 93,
                       poolClosed = None\<rparr>],
            poolCalls := [CallRelease 0 [Some \<lparr>allocAmount = 10, allocPool = 0\<rparr>, None]],
            quotaReleaseQueue := [Some \<lparr>allocAmount = 7, allocPool = 0\<rparr>],
            proposalQuotaBaseIndex := 7,
            replicaFlowControlIntegration := [OnRaftTicked]\<rparr>)"
  by (simp add: leaderAt8_def tick_defs)

lemma specMinIndex_leaderAt8: "specMinIndex 120 leaderAt8 = 7"
  by (simp add: specMinIndex_def leaderAt8_def holdsUpQuota_def toReplicaID_def
        isFollowerActiveSince_def)

section \<open>The proposer's entry point\<close>

text \<open>
  C7. For a range whose descriptor start key has the node liveness prefix, the entry
  point returns no allocation and no error, and has no effect on the pool: it does
  not call \<^verbatim>\<open>Acquire\<close>, whatever the request, the setting and the state of the
  pool are.
\<close>

theorem liveness_range_never_acquires:
  assumes "bytesHasPrefix (StartKey (stateDesc r)) nodeLivenessPrefix"
  shows "maybeAcquireProposalQuota nodeLivenessPrefix acquire r ctx ba quota =
           ((None, None), [])"
  using assms
  by (simp add: maybeAcquireProposalQuota_def quotaPoolEnabledForRange_def
           split: option.splits)

theorem liveness_range_never_acquires_witness:
  "bytesHasPrefix (StartKey (stateDesc livenessLeader)) livenessPrefix \<and>
   maybeAcquireProposalQuota livenessPrefix acquireCanceled livenessLeader tracedContext
     plainBatch 10 = ((None, None), [])"
proof -
  have h: "bytesHasPrefix (StartKey (stateDesc livenessLeader)) livenessPrefix"
    by (simp add: bytesHasPrefix_def livenessLeader_def)
  from liveness_range_never_acquires [OF h] h show ?thesis
    by blast
qed

text \<open>
  C6. When the entry point reaches \<^verbatim>\<open>Acquire\<close> and the call returns an error,
  the caller gets the allocation that came with the error, which is \<^verbatim>\<open>nil\<close>
  when \<^verbatim>\<open>Acquire\<close> returned none; it gets no error when the error is the one
  of a closed pool, and the error of \<^verbatim>\<open>Acquire\<close> itself otherwise.
\<close>

theorem acquire_closed_is_success:
  assumes "\<not> IsSingleRequestLeaseRequest ba" and "\<not> IsSingleTransferLeaseRequest ba"
    and "enableRaftProposalQuota (storeCfg r)"
    and "proposalQuota r = Some pool"
    and "quotaPoolEnabledForRange nodeLivenessPrefix (stateDesc r)"
    and "acquire pool quota = (alloc, Some e)"
  shows "fst (maybeAcquireProposalQuota nodeLivenessPrefix acquire r ctx ba quota) =
           (alloc, if hasTypeErrClosed e then None else Some e) \<and>
         CallAcquire pool quota \<in>
           set (snd (maybeAcquireProposalQuota nodeLivenessPrefix acquire r ctx ba quota))"
  using assms by (simp add: maybeAcquireProposalQuota_def Let_def)

theorem acquire_closed_is_success_witness:
  "\<not> IsSingleRequestLeaseRequest plainBatch \<and> \<not> IsSingleTransferLeaseRequest plainBatch \<and>
   enableRaftProposalQuota (storeCfg leaderAt8) \<and> proposalQuota leaderAt8 = Some 0 \<and>
   quotaPoolEnabledForRange livenessPrefix (stateDesc leaderAt8) \<and>
   acquireClosed 0 10 = (None, Some (ErrClosed ''leader change'')) \<and>
   acquireCanceled 0 10 = (None, Some ContextCanceled) \<and>
   fst (maybeAcquireProposalQuota livenessPrefix acquireClosed leaderAt8 tracedContext
          plainBatch 10) = (None, None) \<and>
   fst (maybeAcquireProposalQuota livenessPrefix acquireCanceled leaderAt8 tracedContext
          plainBatch 10) = (None, Some ContextCanceled)"
proof -
  have b: "\<not> IsSingleRequestLeaseRequest plainBatch" "\<not> IsSingleTransferLeaseRequest plainBatch"
    by (simp_all add: plainBatch_def)
  have e: "enableRaftProposalQuota (storeCfg leaderAt8)"
    by (simp add: leaderAt8_def)
  have p: "proposalQuota leaderAt8 = Some 0"
    by (simp add: leaderAt8_def)
  have q: "quotaPoolEnabledForRange livenessPrefix (stateDesc leaderAt8)"
    by (simp add: quotaPoolEnabledForRange_def bytesHasPrefix_def livenessPrefix_def
          leaderAt8_def)
  have c: "acquireClosed 0 10 = (None, Some (ErrClosed ''leader change''))"
    by (simp add: acquireClosed_def)
  have d: "acquireCanceled 0 10 = (None, Some ContextCanceled)"
    by (simp add: acquireCanceled_def)
  show ?thesis
    using
      acquire_closed_is_success [where acquire = acquireClosed and pool = 0 and quota = 10
        and ctx = tracedContext, OF b e p q c]
      acquire_closed_is_success [where acquire = acquireCanceled and pool = 0 and quota = 10
        and ctx = tracedContext, OF b e p q d]
      b e p q c d
    by simp
qed

section \<open>Leader transitions\<close>

text \<open>
  C3. On the tick where the replica sees a new leader and is that leader, the handler
  is fatal when the pool is not \<^verbatim>\<open>nil\<close> or the release queue is not empty.
  Otherwise the base index becomes the applied index, the replica holds a new pool,
  at an address no pool had, whose capacity is the configured quota and whose tokens
  are all free, the map of last update times holds the current time for the members
  of the range descriptor and nothing else, and the tick count of the last proposal
  is the current tick count.
\<close>

theorem becoming_leader_installs_pool:
  assumes "leaderID r \<noteq> lastLeaderID" and "replicaID r = leaderID r"
  shows "updateProposalQuotaRaftMuLocked now lastLeaderID r =
           (if proposalQuota r \<noteq> None then Inl FatalProposalQuotaNotNil
            else if quotaReleaseQueue r \<noteq> []
            then Inl (FatalReleaseQueueLen (length (quotaReleaseQueue r)))
            else Inr (r\<lparr>proposalQuotaBaseIndex := Applied (basicStatus (internalRaftGroup r)),
                        proposalQuota := Some (length (pools r)),
                        pools := pools r @
                          [\<lparr>poolName = ''raft proposal'',
                            poolCapacity = RaftProposalQuota (storeCfg r),
                            poolQuota = RaftProposalQuota (storeCfg r),
                            poolClosed = None\<rparr>],
                        lastUpdateTimes :=
                          Some (\<lambda>rid. if rid \<in> descReplicaID ` set (InternalReplicas (stateDesc r))
                                       then Some now else None),
                        replicaFlowControlIntegration :=
                          replicaFlowControlIntegration r @ [OnBecameLeader],
                        lastProposalAtTicks := ticks r\<rparr>))"
  using assms
  by (simp add: updateProposalQuotaRaftMuLocked_def becomingLeader_def Let_def
        updateOnBecomeLeader_empty NewIntPool_def)

theorem becoming_leader_installs_pool_witness:
  "leaderID electedAt8 \<noteq> 2 \<and> replicaID electedAt8 = leaderID electedAt8 \<and>
   proposalQuota electedAt8 = None \<and> quotaReleaseQueue electedAt8 = [] \<and>
   updateProposalQuotaRaftMuLocked 120 2 electedAt8 =
     Inr (electedAt8\<lparr>proposalQuotaBaseIndex := 8,
            proposalQuota := Some 0,
            pools := [\<lparr>poolName = ''raft proposal'', poolCapacity = 100, poolQuota = 100,
                       poolClosed = None\<rparr>],
            lastUpdateTimes := Some (\<lambda>rid. if rid \<in> {1, 2, 3} then Some 120 else None),
            replicaFlowControlIntegration := [OnBecameLeader],
            lastProposalAtTicks := 4\<rparr>) \<and>
   updateProposalQuotaRaftMuLocked 120 2 (leaderAt8\<lparr>leaderID := 1\<rparr>) =
     Inl FatalProposalQuotaNotNil"
proof -
  have h: "leaderID electedAt8 \<noteq> 2" "replicaID electedAt8 = leaderID electedAt8"
    by (simp_all add: electedAt8_def followerAt8_def leaderAt8_def)
  have g: "leaderID (leaderAt8\<lparr>leaderID := 1\<rparr>) \<noteq> 2"
    "replicaID (leaderAt8\<lparr>leaderID := 1\<rparr>) = leaderID (leaderAt8\<lparr>leaderID := 1\<rparr>)"
    by (simp_all add: leaderAt8_def)
  show ?thesis
    using becoming_leader_installs_pool [OF h, of 120]
      becoming_leader_installs_pool [OF g, of 120] h
    by (simp add: electedAt8_def followerAt8_def leaderAt8_def)
qed

text \<open>
  C4. On the tick where the replica sees a new leader, is not that leader and holds a
  pool, the handler calls \<^verbatim>\<open>Close\<close> on the pool with the reason "leader change"
  and then \<^verbatim>\<open>Release\<close> on it with the whole release queue, these two calls in
  this order and no other; the pool is closed from then on and the release leaves
  the closed pool as it is. The pool, the queue and the map of last update times of
  the replica are \<^verbatim>\<open>nil\<close> afterwards.
\<close>

theorem becoming_follower_closes_pool:
  assumes "leaderID r \<noteq> lastLeaderID" and "replicaID r \<noteq> leaderID r"
    and "proposalQuota r = Some pool" and "pool < length (pools r)"
  shows "updateProposalQuotaRaftMuLocked now lastLeaderID r =
           Inr (r\<lparr>pools := (pools r)
                     [pool := Release pool (quotaReleaseQueue r)
                                (Close ''leader change'' (pools r ! pool))],
                   poolCalls := poolCalls r @
                     [CallClose pool ''leader change'',
                      CallRelease pool (quotaReleaseQueue r)],
                   quotaReleaseQueue := [],
                   proposalQuota := None,
                   lastUpdateTimes := None,
                   replicaFlowControlIntegration :=
                     replicaFlowControlIntegration r @ [OnBecameFollower]\<rparr>) \<and>
         poolClosed (Close ''leader change'' (pools r ! pool)) \<noteq> None \<and>
         Release pool (quotaReleaseQueue r) (Close ''leader change'' (pools r ! pool)) =
           Close ''leader change'' (pools r ! pool)"
  using assms
  by (auto simp: updateProposalQuotaRaftMuLocked_def becomingFollower_def onPool_def
        Close_def Release_def split: option.splits)

theorem becoming_follower_closes_pool_witness:
  "leaderID deposedAt8 \<noteq> 1 \<and> replicaID deposedAt8 \<noteq> leaderID deposedAt8 \<and>
   proposalQuota deposedAt8 = Some 0 \<and> 0 < length (pools deposedAt8) \<and>
   updateProposalQuotaRaftMuLocked 120 1 deposedAt8 =
     Inr (deposedAt8\<lparr>pools := [\<lparr>poolName = ''raft proposal'', poolCapacity = 100,
                                   poolQuota = 83, poolClosed = Some ''leader change''\<rparr>],
            poolCalls :=
              [CallClose 0 ''leader change'',
               CallRelease 0
                 [Some \<lparr>allocAmount = 10, allocPool = 0\<rparr>, None,
                  Some \<lparr>allocAmount = 7, allocPool = 0\<rparr>]],
            quotaReleaseQueue := [],
            proposalQuota := None,
            lastUpdateTimes := None,
            replicaFlowControlIntegration := [OnBecameFollower]\<rparr>)"
proof -
  have h: "leaderID deposedAt8 \<noteq> 1" "replicaID deposedAt8 \<noteq> leaderID deposedAt8"
    "proposalQuota deposedAt8 = Some 0" "0 < length (pools deposedAt8)"
    by (simp_all add: deposedAt8_def leaderAt8_def)
  show ?thesis
    using becoming_follower_closes_pool [OF h, of 120] h
    by (simp add: deposedAt8_def leaderAt8_def Close_def Release_def)
qed

section \<open>Reconciliation\<close>

text \<open>
  C1. On a tick where the leader is the one of the tick before and the replica holds
  a pool, the handler returns whenever the invariant holds on entry, and when it
  returns the minimum index it has used is the one of the specification: if that
  minimum is above the base index, the first minimum - base entries of the queue
  (there are that many) have been released to the pool, they are gone from the queue
  and the base index is the minimum; otherwise pool, queue and base index are as
  before.
\<close>

theorem still_leader_releases_prefix:
  assumes "leaderID r = lastLeaderID" and "proposalQuota r = Some pool"
  shows "(quotaInvariant r \<longrightarrow> (\<exists>s. updateProposalQuotaRaftMuLocked now lastLeaderID r = Inr s)) \<and>
         (\<forall>s. updateProposalQuotaRaftMuLocked now lastLeaderID r = Inr s \<longrightarrow>
            (if proposalQuotaBaseIndex r < specMinIndex now r
             then unat (specMinIndex now r - proposalQuotaBaseIndex r)
                    \<le> length (quotaReleaseQueue r) \<and>
                  pools s = onPool pool
                    (Release pool
                       (take (unat (specMinIndex now r - proposalQuotaBaseIndex r))
                          (quotaReleaseQueue r)))
                    (pools r) \<and>
                  poolCalls s = poolCalls r @
                    [CallRelease pool
                       (take (unat (specMinIndex now r - proposalQuotaBaseIndex r))
                          (quotaReleaseQueue r))] \<and>
                  quotaReleaseQueue s =
                    drop (unat (specMinIndex now r - proposalQuotaBaseIndex r))
                      (quotaReleaseQueue r) \<and>
                  proposalQuotaBaseIndex s = specMinIndex now r
             else pools s = pools r \<and> poolCalls s = poolCalls r \<and>
                  quotaReleaseQueue s = quotaReleaseQueue r \<and>
                  proposalQuotaBaseIndex s = proposalQuotaBaseIndex r))"
  unfolding tick_stillLeader [OF assms]
  using stillLeader_total [of r now pool] stillLeader_Inr(5) [of now pool r]
  by blast

theorem still_leader_releases_prefix_witness:
  "leaderID leaderAt8 = 1 \<and> proposalQuota leaderAt8 = Some 0 \<and> quotaInvariant leaderAt8 \<and>
   proposalQuotaBaseIndex leaderAt8 = 5 \<and> specMinIndex 120 leaderAt8 = 7 \<and>
   (\<exists>s. updateProposalQuotaRaftMuLocked 120 1 leaderAt8 = Inr s \<and>
        pools s = [\<lparr>poolName = ''raft proposal'', poolCapacity = 100, poolQuota = 93,
                     poolClosed = None\<rparr>] \<and>
        poolCalls s = [CallRelease 0 [Some \<lparr>allocAmount = 10, allocPool = 0\<rparr>, None]] \<and>
        quotaReleaseQueue s = [Some \<lparr>allocAmount = 7, allocPool = 0\<rparr>] \<and>
        proposalQuotaBaseIndex s = 7)"
proof -
  have h: "leaderID leaderAt8 = 1" "proposalQuota leaderAt8 = Some 0"
    by (simp_all add: leaderAt8_def)
  have i: "quotaInvariant leaderAt8"
    by (simp add: quotaInvariant_def leaderAt8_def)
  have b: "proposalQuotaBaseIndex leaderAt8 = 5"
    by (simp add: leaderAt8_def)
  have q: "quotaReleaseQueue leaderAt8 =
             [Some \<lparr>allocAmount = 10, allocPool = 0\<rparr>, None, Some \<lparr>allocAmount = 7, allocPool = 0\<rparr>]"
    "pools leaderAt8 = [\<lparr>poolName = ''raft proposal'', poolCapacity = 100, poolQuota = 83,
                     poolClosed = None\<rparr>]"
    "poolCalls leaderAt8 = []"
    by (simp_all add: leaderAt8_def)
  from still_leader_releases_prefix [OF h, of 120] i
  obtain s where s: "updateProposalQuotaRaftMuLocked 120 1 leaderAt8 = Inr s"
    by blast
  with still_leader_releases_prefix [OF h, of 120]
  have "pools s = onPool 0 (Release 0 (take (unat (7 - 5 :: 64 word)) (quotaReleaseQueue leaderAt8)))
                    (pools leaderAt8) \<and>
        poolCalls s = poolCalls leaderAt8 @
          [CallRelease 0 (take (unat (7 - 5 :: 64 word)) (quotaReleaseQueue leaderAt8))] \<and>
        quotaReleaseQueue s = drop (unat (7 - 5 :: 64 word)) (quotaReleaseQueue leaderAt8) \<and>
        proposalQuotaBaseIndex s = 7"
    by (simp add: specMinIndex_leaderAt8 b)
  then have "pools s = [\<lparr>poolName = ''raft proposal'', poolCapacity = 100, poolQuota = 93,
                     poolClosed = None\<rparr>] \<and>
        poolCalls s = [CallRelease 0 [Some \<lparr>allocAmount = 10, allocPool = 0\<rparr>, None]] \<and>
        quotaReleaseQueue s = [Some \<lparr>allocAmount = 7, allocPool = 0\<rparr>] \<and>
        proposalQuotaBaseIndex s = 7"
    by (simp add: q onPool_def Release_def)
  with s h i b specMinIndex_leaderAt8 show ?thesis
    by blast
qed

text \<open>
  C2, as stated: on every tick the invariant is asserted and its violation is fatal.
  The tick of a follower without a pool returns the replica as it is, although its
  base index plus the length of its queue is 5 and its applied index is 8.
\<close>

theorem follower_tick_asserts_nothing:
  "leaderID followerAt8 = 2 \<and> replicaID followerAt8 = 1 \<and> proposalQuota followerAt8 = None \<and>
   updateProposalQuotaRaftMuLocked 120 2 followerAt8 = Inr followerAt8 \<and>
   proposalQuotaBaseIndex followerAt8 + of_nat (length (quotaReleaseQueue followerAt8)) = 5 \<and>
   Applied (basicStatus (internalRaftGroup followerAt8)) = 8 \<and>
   \<not> quotaInvariant followerAt8"
  by (simp add: followerAt8_def leaderAt8_def updateProposalQuotaRaftMuLocked_def
        quotaInvariant_def)

text \<open>
  C2, amended: the invariant is asserted on the ticks of a replica that remains
  leader and on no other tick. When the leader is the one of the tick before and the
  replica holds a pool, the tick returns only in a state that satisfies the
  invariant, for the applied index of the entry, and a tick entered with the
  invariant violated ends in the fatal error that carries the two unequal indices,
  or in the panic of the slice expression. On every other tick the outcome does not
  depend on the invariant: a replica that is not the leader and holds no pool is
  returned as it is, with or without a leader change; a replica that is not the new
  leader and holds a pool is returned with an empty queue and the base index it had;
  the tick of the new leader returns exactly when the pool is \<^verbatim>\<open>nil\<close> and the
  queue is empty; and a leader of before that holds no pool is fatal for that reason.
\<close>

theorem invariant_asserted_by_leader_only:
  "(leaderID r = lastLeaderID \<and> proposalQuota r = Some pool \<longrightarrow>
      (\<forall>s. updateProposalQuotaRaftMuLocked now lastLeaderID r = Inr s \<longrightarrow>
         quotaInvariant s \<and> internalRaftGroup s = internalRaftGroup r) \<and>
      (\<not> quotaInvariant r \<longrightarrow>
         updateProposalQuotaRaftMuLocked now lastLeaderID r = Inl PanicSliceBounds \<or>
         (\<exists>b n x. x \<noteq> Applied (basicStatus (internalRaftGroup r)) \<and>
            updateProposalQuotaRaftMuLocked now lastLeaderID r =
              Inl (FatalReleasableIndex b n x (Applied (basicStatus (internalRaftGroup r))))))) \<and>
   (proposalQuota r = None \<and> replicaID r \<noteq> leaderID r \<longrightarrow>
      updateProposalQuotaRaftMuLocked now lastLeaderID r = Inr r) \<and>
   (leaderID r \<noteq> lastLeaderID \<and> replicaID r \<noteq> leaderID r \<and> proposalQuota r = Some pool \<longrightarrow>
      (\<exists>s. updateProposalQuotaRaftMuLocked now lastLeaderID r = Inr s \<and>
           quotaReleaseQueue s = [] \<and>
           proposalQuotaBaseIndex s = proposalQuotaBaseIndex r \<and>
           internalRaftGroup s = internalRaftGroup r)) \<and>
   (leaderID r \<noteq> lastLeaderID \<and> replicaID r = leaderID r \<longrightarrow>
      (\<exists>s. updateProposalQuotaRaftMuLocked now lastLeaderID r = Inr s) =
      (proposalQuota r = None \<and> quotaReleaseQueue r = [])) \<and>
   (leaderID r = lastLeaderID \<and> replicaID r = leaderID r \<and> proposalQuota r = None \<longrightarrow>
      updateProposalQuotaRaftMuLocked now lastLeaderID r = Inl FatalLeaderUninitializedPool)"
proof -
  have still: "(\<forall>s. updateProposalQuotaRaftMuLocked now lastLeaderID r = Inr s \<longrightarrow>
         quotaInvariant s \<and> internalRaftGroup s = internalRaftGroup r) \<and>
      (\<not> quotaInvariant r \<longrightarrow>
         updateProposalQuotaRaftMuLocked now lastLeaderID r = Inl PanicSliceBounds \<or>
         (\<exists>b n x. x \<noteq> Applied (basicStatus (internalRaftGroup r)) \<and>
            updateProposalQuotaRaftMuLocked now lastLeaderID r =
              Inl (FatalReleasableIndex b n x (Applied (basicStatus (internalRaftGroup r))))))"
    if l: "leaderID r = lastLeaderID" and p: "proposalQuota r = Some pool"
  proof -
    have "quotaInvariant s \<and> internalRaftGroup s = internalRaftGroup r"
      if "stillLeader now pool r = Inr s" for s
      using stillLeader_Inr(2,3) [OF that] by simp
    moreover have "stillLeader now pool r = Inl PanicSliceBounds \<or>
            (\<exists>b n x. x \<noteq> Applied (basicStatus (internalRaftGroup r)) \<and>
               stillLeader now pool r =
                 Inl (FatalReleasableIndex b n x (Applied (basicStatus (internalRaftGroup r)))))"
      if "\<not> quotaInvariant r"
    proof (cases "stillLeader now pool r")
      case (Inl e)
      from stillLeader_Inl(2) [OF Inl] show ?thesis
        unfolding Inl by blast
    next
      case (Inr s)
      from stillLeader_Inr(1) [OF Inr] that show ?thesis
        by simp
    qed
    ultimately show ?thesis
      unfolding tick_stillLeader [OF l p] by blast
  qed
  have idle: "updateProposalQuotaRaftMuLocked now lastLeaderID r = Inr r"
    if "proposalQuota r = None" and "replicaID r \<noteq> leaderID r"
    using that by (auto simp: updateProposalQuotaRaftMuLocked_def)
  have deposed: "\<exists>s. updateProposalQuotaRaftMuLocked now lastLeaderID r = Inr s \<and>
           quotaReleaseQueue s = [] \<and>
           proposalQuotaBaseIndex s = proposalQuotaBaseIndex r \<and>
           internalRaftGroup s = internalRaftGroup r"
    if "leaderID r \<noteq> lastLeaderID" and "replicaID r \<noteq> leaderID r"
      and "proposalQuota r = Some pool"
    using that by (simp add: updateProposalQuotaRaftMuLocked_def becomingFollower_def)
  have elected: "(\<exists>s. updateProposalQuotaRaftMuLocked now lastLeaderID r = Inr s) =
      (proposalQuota r = None \<and> quotaReleaseQueue r = [])"
    if "leaderID r \<noteq> lastLeaderID" and "replicaID r = leaderID r"
    using that by (auto simp: updateProposalQuotaRaftMuLocked_def becomingLeader_def Let_def)
  have bare: "updateProposalQuotaRaftMuLocked now lastLeaderID r = Inl FatalLeaderUninitializedPool"
    if "leaderID r = lastLeaderID" and "replicaID r = leaderID r" and "proposalQuota r = None"
    using that by (simp add: updateProposalQuotaRaftMuLocked_def)
  have c1: "leaderID r = lastLeaderID \<and> proposalQuota r = Some pool \<longrightarrow>
      (\<forall>s. updateProposalQuotaRaftMuLocked now lastLeaderID r = Inr s \<longrightarrow>
         quotaInvariant s \<and> internalRaftGroup s = internalRaftGroup r) \<and>
      (\<not> quotaInvariant r \<longrightarrow>
         updateProposalQuotaRaftMuLocked now lastLeaderID r = Inl PanicSliceBounds \<or>
         (\<exists>b n x. x \<noteq> Applied (basicStatus (internalRaftGroup r)) \<and>
            updateProposalQuotaRaftMuLocked now lastLeaderID r =
              Inl (FatalReleasableIndex b n x (Applied (basicStatus (internalRaftGroup r))))))"
    using still by (intro impI) (elim conjE)
  have c2: "proposalQuota r = None \<and> replicaID r \<noteq> leaderID r \<longrightarrow>
      updateProposalQuotaRaftMuLocked now lastLeaderID r = Inr r"
    using idle by (intro impI) (elim conjE)
  have c3: "leaderID r \<noteq> lastLeaderID \<and> replicaID r \<noteq> leaderID r \<and> proposalQuota r = Some pool \<longrightarrow>
      (\<exists>s. updateProposalQuotaRaftMuLocked now lastLeaderID r = Inr s \<and>
           quotaReleaseQueue s = [] \<and>
           proposalQuotaBaseIndex s = proposalQuotaBaseIndex r \<and>
           internalRaftGroup s = internalRaftGroup r)"
    using deposed by (intro impI) (elim conjE)
  have c4: "leaderID r \<noteq> lastLeaderID \<and> replicaID r = leaderID r \<longrightarrow>
      (\<exists>s. updateProposalQuotaRaftMuLocked now lastLeaderID r = Inr s) =
      (proposalQuota r = None \<and> quotaReleaseQueue r = [])"
    using elected by (intro impI) (elim conjE)
  have c5: "leaderID r = lastLeaderID \<and> replicaID r = leaderID r \<and> proposalQuota r = None \<longrightarrow>
      updateProposalQuotaRaftMuLocked now lastLeaderID r = Inl FatalLeaderUninitializedPool"
    using bare by (intro impI) (elim conjE)
  show ?thesis
    by (intro conjI c1 c2 c3 c4 c5)
qed

theorem invariant_asserted_by_leader_only_witness:
  "leaderID leaderAt8 = 1 \<and> proposalQuota leaderAt8 = Some 0 \<and>
   (\<exists>s. updateProposalQuotaRaftMuLocked 120 1 leaderAt8 = Inr s \<and> quotaInvariant s) \<and>
   leaderID (leaderAt8\<lparr>quotaReleaseQueue := []\<rparr>) = 1 \<and>
   proposalQuota (leaderAt8\<lparr>quotaReleaseQueue := []\<rparr>) = Some 0 \<and>
   \<not> quotaInvariant (leaderAt8\<lparr>quotaReleaseQueue := []\<rparr>) \<and>
   (\<exists>e. updateProposalQuotaRaftMuLocked 120 1 (leaderAt8\<lparr>quotaReleaseQueue := []\<rparr>) = Inl e) \<and>
   proposalQuota followerAt8 = None \<and> replicaID followerAt8 \<noteq> leaderID followerAt8 \<and>
   \<not> quotaInvariant followerAt8 \<and>
   updateProposalQuotaRaftMuLocked 120 2 followerAt8 = Inr followerAt8 \<and>
   updateProposalQuotaRaftMuLocked 120 1 followerAt8 = Inr followerAt8 \<and>
   leaderID deposedAt8 \<noteq> 1 \<and> replicaID deposedAt8 \<noteq> leaderID deposedAt8 \<and>
   proposalQuota deposedAt8 = Some 0 \<and>
   (\<exists>s. updateProposalQuotaRaftMuLocked 120 1 deposedAt8 = Inr s \<and> \<not> quotaInvariant s) \<and>
   leaderID electedAt8 \<noteq> 2 \<and> replicaID electedAt8 = leaderID electedAt8 \<and>
   proposalQuota electedAt8 = None \<and> quotaReleaseQueue electedAt8 = [] \<and>
   (\<exists>s. updateProposalQuotaRaftMuLocked 120 2 electedAt8 = Inr s) \<and>
   leaderID electedAt8 = 1 \<and>
   updateProposalQuotaRaftMuLocked 120 1 electedAt8 = Inl FatalLeaderUninitializedPool"
proof -
  note t = leaderAt8_tick
  have h: "leaderID leaderAt8 = 1" "proposalQuota leaderAt8 = Some 0"
    by (simp_all add: leaderAt8_def)
  have g: "leaderID (leaderAt8\<lparr>quotaReleaseQueue := []\<rparr>) = 1"
    "proposalQuota (leaderAt8\<lparr>quotaReleaseQueue := []\<rparr>) = Some 0"
    by (simp_all add: leaderAt8_def)
  have n: "\<not> quotaInvariant (leaderAt8\<lparr>quotaReleaseQueue := []\<rparr>)"
    by (simp add: quotaInvariant_def leaderAt8_def)
  have f: "proposalQuota followerAt8 = None" "replicaID followerAt8 \<noteq> leaderID followerAt8"
    "\<not> quotaInvariant followerAt8"
    by (simp_all add: followerAt8_def leaderAt8_def quotaInvariant_def)
  have d: "leaderID deposedAt8 \<noteq> 1" "replicaID deposedAt8 \<noteq> leaderID deposedAt8"
    "proposalQuota deposedAt8 = Some 0"
    "proposalQuotaBaseIndex deposedAt8 = 5"
    "Applied (basicStatus (internalRaftGroup deposedAt8)) = 8"
    by (simp_all add: deposedAt8_def leaderAt8_def)
  have e: "leaderID electedAt8 \<noteq> 2" "replicaID electedAt8 = leaderID electedAt8"
    "proposalQuota electedAt8 = None" "quotaReleaseQueue electedAt8 = []"
    "leaderID electedAt8 = 1"
    by (simp_all add: electedAt8_def followerAt8_def leaderAt8_def)
  have 1: "\<exists>s. updateProposalQuotaRaftMuLocked 120 1 leaderAt8 = Inr s \<and> quotaInvariant s"
    using invariant_asserted_by_leader_only [of leaderAt8 1 0 120] h t by simp
  have 2: "\<exists>e. updateProposalQuotaRaftMuLocked 120 1 (leaderAt8\<lparr>quotaReleaseQueue := []\<rparr>) = Inl e"
    using invariant_asserted_by_leader_only [of "leaderAt8\<lparr>quotaReleaseQueue := []\<rparr>" 1 0 120] g n
    by blast
  have 3: "updateProposalQuotaRaftMuLocked 120 2 followerAt8 = Inr followerAt8"
    "updateProposalQuotaRaftMuLocked 120 1 followerAt8 = Inr followerAt8"
    using invariant_asserted_by_leader_only [of followerAt8 2 0 120]
      invariant_asserted_by_leader_only [of followerAt8 1 0 120] f
    by blast+
  obtain s where s: "updateProposalQuotaRaftMuLocked 120 1 deposedAt8 = Inr s"
    "quotaReleaseQueue s = []" "proposalQuotaBaseIndex s = proposalQuotaBaseIndex deposedAt8"
    "internalRaftGroup s = internalRaftGroup deposedAt8"
    using invariant_asserted_by_leader_only [of deposedAt8 1 0 120] d(1-3) by blast
  have "\<not> quotaInvariant s"
    by (simp add: quotaInvariant_def s d)
  with s have 4: "\<exists>s. updateProposalQuotaRaftMuLocked 120 1 deposedAt8 = Inr s \<and> \<not> quotaInvariant s"
    by blast
  have 5: "\<exists>s. updateProposalQuotaRaftMuLocked 120 2 electedAt8 = Inr s"
    using invariant_asserted_by_leader_only [of electedAt8 2 0 120] e by blast
  have 6: "updateProposalQuotaRaftMuLocked 120 1 electedAt8 = Inl FatalLeaderUninitializedPool"
    using invariant_asserted_by_leader_only [of electedAt8 1 0 120] e by blast
  from h g n f d(1-3) e 1 2 3 4 5 6 show ?thesis
    by blast
qed

text \<open>
  C9. On the same path and with the invariant on entry, the minimum index computed by
  the scan is at most the applied index; when it is above the base index, the number
  of releases minimum - base is at most the length of the queue, so the handler
  returns (the slice expressions do not panic), and the base index either stays or
  advances to a value that is at most the applied index.
\<close>

theorem release_count_within_queue:
  assumes "leaderID r = lastLeaderID" and "proposalQuota r = Some pool"
    and "quotaInvariant r"
  shows "snd (WithProgress (internalRaftGroup r)
                (visitProgress now (Commit (basicStatus (internalRaftGroup r))))
                (r, Applied (basicStatus (internalRaftGroup r))))
           \<le> Applied (basicStatus (internalRaftGroup r)) \<and>
         (proposalQuotaBaseIndex r <
            snd (WithProgress (internalRaftGroup r)
                   (visitProgress now (Commit (basicStatus (internalRaftGroup r))))
                   (r, Applied (basicStatus (internalRaftGroup r)))) \<longrightarrow>
          unat (snd (WithProgress (internalRaftGroup r)
                       (visitProgress now (Commit (basicStatus (internalRaftGroup r))))
                       (r, Applied (basicStatus (internalRaftGroup r))))
                - proposalQuotaBaseIndex r) \<le> length (quotaReleaseQueue r)) \<and>
         (\<exists>s. updateProposalQuotaRaftMuLocked now lastLeaderID r = Inr s \<and>
              (proposalQuotaBaseIndex s = proposalQuotaBaseIndex r \<or>
               proposalQuotaBaseIndex r < proposalQuotaBaseIndex s \<and>
               proposalQuotaBaseIndex s \<le> Applied (basicStatus (internalRaftGroup r))))"
proof -
  let ?a = "Applied (basicStatus (internalRaftGroup r))"
  have m: "snd (WithProgress (internalRaftGroup r)
                (visitProgress now (Commit (basicStatus (internalRaftGroup r)))) (r, ?a)) =
           specMinIndex now r"
    by (simp only: WithProgress_def Visit_visitProgress_snd specMinIndex_def)
  have le: "specMinIndex now r \<le> ?a"
    by (rule specMinIndex_le_applied)
  have n: "unat (specMinIndex now r - proposalQuotaBaseIndex r) \<le> length (quotaReleaseQueue r)"
    if "proposalQuotaBaseIndex r < specMinIndex now r"
    using assms(3) that le
    by (intro release_within_queue [where a = ?a]) (simp_all add: quotaInvariant_def)
  obtain s where s: "stillLeader now pool r = Inr s"
    using stillLeader_total [OF assms(3)] by blast
  have "proposalQuotaBaseIndex s = proposalQuotaBaseIndex r \<or>
        proposalQuotaBaseIndex r < proposalQuotaBaseIndex s \<and> proposalQuotaBaseIndex s \<le> ?a"
    using stillLeader_Inr(5) [OF s] le by (simp split: if_splits)
  with s m le n show ?thesis
    unfolding tick_stillLeader [OF assms(1,2)] by simp
qed

theorem release_count_within_queue_witness:
  "leaderID leaderAt8 = 1 \<and> proposalQuota leaderAt8 = Some 0 \<and> quotaInvariant leaderAt8 \<and>
   proposalQuotaBaseIndex leaderAt8 = 5 \<and>
   snd (WithProgress (internalRaftGroup leaderAt8) (visitProgress 120 8) (leaderAt8, 8)) = 7 \<and>
   unat (7 - 5 :: 64 word) \<le> length (quotaReleaseQueue leaderAt8) \<and>
   (\<exists>s. updateProposalQuotaRaftMuLocked 120 1 leaderAt8 = Inr s \<and>
        proposalQuotaBaseIndex leaderAt8 < proposalQuotaBaseIndex s \<and>
        proposalQuotaBaseIndex s \<le> 8)"
proof -
  have h: "leaderID leaderAt8 = 1" "proposalQuota leaderAt8 = Some 0"
    by (simp_all add: leaderAt8_def)
  have i: "quotaInvariant leaderAt8"
    by (simp add: quotaInvariant_def leaderAt8_def)
  have b: "proposalQuotaBaseIndex leaderAt8 = 5"
    "Applied (basicStatus (internalRaftGroup leaderAt8)) = 8"
    "Commit (basicStatus (internalRaftGroup leaderAt8)) = 8"
    by (simp_all add: leaderAt8_def)
  have m: "snd (WithProgress (internalRaftGroup leaderAt8) (visitProgress 120 8) (leaderAt8, 8)) = 7"
    by (simp add: leaderAt8_def tick_defs)
  note t = leaderAt8_tick
  from release_count_within_queue [OF h i, of 120] show ?thesis
    unfolding b m t using h i by auto
qed

text \<open>
  C8, as stated: while the replica remains leader, the tracking fields are cleared
  when the replica added last has a match index of at least the commit index. Here
  replica 3, added last, has match index 8 and the commit index is 8, but the leader
  has not heard of it within the lease duration: the scan skips it and the fields
  keep their values.
\<close>

theorem silent_replica_stays_tracked:
  "leaderID leaderOfSilent3 = 1 \<and> proposalQuota leaderOfSilent3 = Some 0 \<and>
   lastReplicaAdded leaderOfSilent3 = 3 \<and> lastReplicaAddedTime leaderOfSilent3 = 90 \<and>
   progressOf (internalRaftGroup leaderOfSilent3) =
     [(1, \<lparr>Match = 8\<rparr>), (2, \<lparr>Match = 7\<rparr>), (3, \<lparr>Match = 8\<rparr>)] \<and>
   Commit (basicStatus (internalRaftGroup leaderOfSilent3)) = 8 \<and>
   updateProposalQuotaRaftMuLocked 120 1 leaderOfSilent3 =
     Inr (leaderOfSilent3\<lparr>lastReplicaAdded := 3, lastReplicaAddedTime := 90,
            pools := [\<lparr>poolName = ''raft proposal'', poolCapacity = 100, poolQuota = 93,
                       poolClosed = None\<rparr>],
            poolCalls := [CallRelease 0 [Some \<lparr>allocAmount = 10, allocPool = 0\<rparr>, None]],
            quotaReleaseQueue := [Some \<lparr>allocAmount = 7, allocPool = 0\<rparr>],
            proposalQuotaBaseIndex := 7,
            replicaFlowControlIntegration := [OnRaftTicked]\<rparr>)"
  by (simp add: leaderOfSilent3_def leaderAt8_def tick_defs)

text \<open>
  C8, amended: while the replica remains leader, the tracking fields are cleared when
  the replica added last is a peer that the scan does not skip (it is in the range
  descriptor, live, not below the base index and not paused) and its match index is
  at least the commit index.
\<close>

theorem caught_up_replica_is_untracked:
  assumes "leaderID r = lastLeaderID" and "proposalQuota r = Some pool"
    and "p \<in> set (progressOf (internalRaftGroup r))"
    and "toReplicaID (fst p) = lastReplicaAdded r"
    and "notSkipped now r p"
    and "Commit (basicStatus (internalRaftGroup r)) \<le> Match (snd p)"
  shows "(quotaInvariant r \<longrightarrow>
            (\<exists>s. updateProposalQuotaRaftMuLocked now lastLeaderID r = Inr s)) \<and>
         (\<forall>s. updateProposalQuotaRaftMuLocked now lastLeaderID r = Inr s \<longrightarrow>
            lastReplicaAdded s = 0 \<and> lastReplicaAddedTime s = zeroTime)"
proof -
  have "lastReplicaAdded s = 0 \<and> lastReplicaAddedTime s = zeroTime"
    if "stillLeader now pool r = Inr s" for s
    using stillLeader_Inr(6,7) [OF that] Visit_clears [OF assms(3,5,4,6)]
    by simp
  then show ?thesis
    unfolding tick_stillLeader [OF assms(1,2)]
    using stillLeader_total [of r now pool] by blast
qed

theorem caught_up_replica_is_untracked_witness:
  "leaderID leaderAt8 = 1 \<and> proposalQuota leaderAt8 = Some 0 \<and>
   (3, \<lparr>Match = 8\<rparr>) \<in> set (progressOf (internalRaftGroup leaderAt8)) \<and>
   toReplicaID 3 = lastReplicaAdded leaderAt8 \<and>
   notSkipped 120 leaderAt8 (3, \<lparr>Match = 8\<rparr>) \<and>
   Commit (basicStatus (internalRaftGroup leaderAt8)) \<le> 8 \<and>
   quotaInvariant leaderAt8 \<and>
   (\<exists>s. updateProposalQuotaRaftMuLocked 120 1 leaderAt8 = Inr s \<and>
        lastReplicaAdded s = 0 \<and> lastReplicaAddedTime s = zeroTime)"
proof -
  have h: "leaderID leaderAt8 = 1" "proposalQuota leaderAt8 = Some 0"
    by (simp_all add: leaderAt8_def)
  have p: "(3, \<lparr>Match = 8\<rparr>) \<in> set (progressOf (internalRaftGroup leaderAt8))"
    by (simp add: leaderAt8_def)
  have l: "toReplicaID (fst (3, \<lparr>Match = 8\<rparr>)) = lastReplicaAdded leaderAt8"
    by (simp add: leaderAt8_def toReplicaID_def)
  have n: "notSkipped 120 leaderAt8 (3, \<lparr>Match = 8\<rparr>)"
    by (simp add: notSkipped_def leaderAt8_def toReplicaID_def isFollowerActiveSince_def)
  have c: "Commit (basicStatus (internalRaftGroup leaderAt8)) \<le> Match (snd (3, \<lparr>Match = 8\<rparr>))"
    by (simp add: leaderAt8_def)
  have i: "quotaInvariant leaderAt8"
    by (simp add: quotaInvariant_def leaderAt8_def)
  from caught_up_replica_is_untracked [OF h p l n c] i
  have "\<exists>s. updateProposalQuotaRaftMuLocked 120 1 leaderAt8 = Inr s \<and>
        lastReplicaAdded s = 0 \<and> lastReplicaAddedTime s = zeroTime"
    by blast
  with h p l n c i show ?thesis
    by simp
qed

text \<open>
  C5, as stated: with no leader change, a replica that is not the leader and holds a
  pool makes the handler fatal. Here replica 1 holds a pool while the leader is and
  was replica 2, and the tick returns after releasing two entries.
\<close>

theorem follower_with_pool_is_not_fatal:
  "leaderID deposedAt8 = 2 \<and> replicaID deposedAt8 \<noteq> leaderID deposedAt8 \<and>
   proposalQuota deposedAt8 = Some 0 \<and>
   updateProposalQuotaRaftMuLocked 120 2 deposedAt8 =
     Inr (deposedAt8\<lparr>lastReplicaAdded := 0, lastReplicaAddedTime := 0,
            pools := [\<lparr>poolName = ''raft proposal'', poolCapacity = 100, poolQuota = 93,
                       poolClosed = None\<rparr>],
            poolCalls := [CallRelease 0 [Some \<lparr>allocAmount = 10, allocPool = 0\<rparr>, None]],
            quotaReleaseQueue := [Some \<lparr>allocAmount = 7, allocPool = 0\<rparr>],
            proposalQuotaBaseIndex := 7,
            replicaFlowControlIntegration := [OnRaftTicked]\<rparr>)"
  by (simp add: deposedAt8_def leaderAt8_def tick_defs)

text \<open>
  C5, amended: with no leader change, the handler does not ask whether the replica
  that holds a pool is the leader. A replica that is not the leader and holds a pool
  is reconciled like the leader: the tick returns exactly when the invariant holds on
  entry and is fatal exactly when it is violated, and when it returns the replica
  holds the pool as before, the invariant holds, and the prefix of the queue up to
  the minimum index of the specification has been released with one call of
  \<^verbatim>\<open>Release\<close>, or nothing has when the minimum is not above the base index. The
  fatal error of a tick with no leader change is the one of the converse case: a
  replica that holds no pool is fatal when it is the leader and is returned as it is
  when it is not.
\<close>

theorem follower_with_pool_reconciles:
  assumes "leaderID r = lastLeaderID"
  shows "(replicaID r \<noteq> leaderID r \<and> proposalQuota r = Some pool \<longrightarrow>
            (\<exists>s. updateProposalQuotaRaftMuLocked now lastLeaderID r = Inr s) = quotaInvariant r \<and>
            (\<exists>e. updateProposalQuotaRaftMuLocked now lastLeaderID r = Inl e) =
              (\<not> quotaInvariant r) \<and>
            (\<forall>s. updateProposalQuotaRaftMuLocked now lastLeaderID r = Inr s \<longrightarrow>
               proposalQuota s = Some pool \<and> quotaInvariant s \<and>
               (if proposalQuotaBaseIndex r < specMinIndex now r
                then pools s = onPool pool
                       (Release pool
                          (take (unat (specMinIndex now r - proposalQuotaBaseIndex r))
                             (quotaReleaseQueue r)))
                       (pools r) \<and>
                     poolCalls s = poolCalls r @
                       [CallRelease pool
                          (take (unat (specMinIndex now r - proposalQuotaBaseIndex r))
                             (quotaReleaseQueue r))] \<and>
                     quotaReleaseQueue s =
                       drop (unat (specMinIndex now r - proposalQuotaBaseIndex r))
                         (quotaReleaseQueue r) \<and>
                     proposalQuotaBaseIndex s = specMinIndex now r
                else pools s = pools r \<and> poolCalls s = poolCalls r \<and>
                     quotaReleaseQueue s = quotaReleaseQueue r \<and>
                     proposalQuotaBaseIndex s = proposalQuotaBaseIndex r))) \<and>
         (proposalQuota r = None \<longrightarrow>
            updateProposalQuotaRaftMuLocked now lastLeaderID r =
              (if replicaID r = leaderID r then Inl FatalLeaderUninitializedPool else Inr r))"
proof -
  have held: "(\<exists>s. updateProposalQuotaRaftMuLocked now lastLeaderID r = Inr s) = quotaInvariant r \<and>
            (\<exists>e. updateProposalQuotaRaftMuLocked now lastLeaderID r = Inl e) =
              (\<not> quotaInvariant r) \<and>
            (\<forall>s. updateProposalQuotaRaftMuLocked now lastLeaderID r = Inr s \<longrightarrow>
               proposalQuota s = Some pool \<and> quotaInvariant s \<and>
               (if proposalQuotaBaseIndex r < specMinIndex now r
                then pools s = onPool pool
                       (Release pool
                          (take (unat (specMinIndex now r - proposalQuotaBaseIndex r))
                             (quotaReleaseQueue r)))
                       (pools r) \<and>
                     poolCalls s = poolCalls r @
                       [CallRelease pool
                          (take (unat (specMinIndex now r - proposalQuotaBaseIndex r))
                             (quotaReleaseQueue r))] \<and>
                     quotaReleaseQueue s =
                       drop (unat (specMinIndex now r - proposalQuotaBaseIndex r))
                         (quotaReleaseQueue r) \<and>
                     proposalQuotaBaseIndex s = specMinIndex now r
                else pools s = pools r \<and> poolCalls s = poolCalls r \<and>
                     quotaReleaseQueue s = quotaReleaseQueue r \<and>
                     proposalQuotaBaseIndex s = proposalQuotaBaseIndex r))"
    if p: "proposalQuota r = Some pool"
  proof -
    have a: "(\<exists>s. stillLeader now pool r = Inr s) = quotaInvariant r"
      using stillLeader_total [of r now pool] stillLeader_Inr(1) [of now pool r] by blast
    have b: "(\<exists>e. stillLeader now pool r = Inl e) = (\<not> quotaInvariant r)"
      using a by (cases "stillLeader now pool r") auto
    have c: "proposalQuota s = Some pool \<and> quotaInvariant s \<and>
               (if proposalQuotaBaseIndex r < specMinIndex now r
                then pools s = onPool pool
                       (Release pool
                          (take (unat (specMinIndex now r - proposalQuotaBaseIndex r))
                             (quotaReleaseQueue r)))
                       (pools r) \<and>
                     poolCalls s = poolCalls r @
                       [CallRelease pool
                          (take (unat (specMinIndex now r - proposalQuotaBaseIndex r))
                             (quotaReleaseQueue r))] \<and>
                     quotaReleaseQueue s =
                       drop (unat (specMinIndex now r - proposalQuotaBaseIndex r))
                         (quotaReleaseQueue r) \<and>
                     proposalQuotaBaseIndex s = specMinIndex now r
                else pools s = pools r \<and> poolCalls s = poolCalls r \<and>
                     quotaReleaseQueue s = quotaReleaseQueue r \<and>
                     proposalQuotaBaseIndex s = proposalQuotaBaseIndex r)"
      if "stillLeader now pool r = Inr s" for s
      using stillLeader_Inr(2,4,5) [OF that] p by (simp split: if_splits)
    from a b c show ?thesis
      unfolding tick_stillLeader [OF assms p] by blast
  qed
  have bare: "updateProposalQuotaRaftMuLocked now lastLeaderID r =
              (if replicaID r = leaderID r then Inl FatalLeaderUninitializedPool else Inr r)"
    if "proposalQuota r = None"
    using that assms by (simp add: updateProposalQuotaRaftMuLocked_def)
  from held bare show ?thesis
    by blast
qed

theorem follower_with_pool_reconciles_witness:
  "leaderID deposedAt8 = 2 \<and> replicaID deposedAt8 \<noteq> leaderID deposedAt8 \<and>
   proposalQuota deposedAt8 = Some 0 \<and> quotaInvariant deposedAt8 \<and>
   proposalQuotaBaseIndex deposedAt8 = 5 \<and> specMinIndex 120 deposedAt8 = 7 \<and>
   (\<exists>s. updateProposalQuotaRaftMuLocked 120 2 deposedAt8 = Inr s \<and>
        proposalQuota s = Some 0 \<and> quotaInvariant s \<and>
        poolCalls s = [CallRelease 0 [Some \<lparr>allocAmount = 10, allocPool = 0\<rparr>, None]] \<and>
        quotaReleaseQueue s = [Some \<lparr>allocAmount = 7, allocPool = 0\<rparr>] \<and>
        proposalQuotaBaseIndex s = 7) \<and>
   leaderID electedAt8 = 1 \<and> replicaID electedAt8 = leaderID electedAt8 \<and>
   proposalQuota electedAt8 = None \<and>
   updateProposalQuotaRaftMuLocked 120 1 electedAt8 = Inl FatalLeaderUninitializedPool \<and>
   leaderID followerAt8 = 2 \<and> replicaID followerAt8 \<noteq> leaderID followerAt8 \<and>
   proposalQuota followerAt8 = None \<and>
   updateProposalQuotaRaftMuLocked 120 2 followerAt8 = Inr followerAt8"
proof -
  have h: "leaderID deposedAt8 = 2" "replicaID deposedAt8 \<noteq> leaderID deposedAt8"
    "proposalQuota deposedAt8 = Some 0"
    by (simp_all add: deposedAt8_def leaderAt8_def)
  have i: "quotaInvariant deposedAt8"
    by (simp add: quotaInvariant_def deposedAt8_def leaderAt8_def)
  have b: "proposalQuotaBaseIndex deposedAt8 = 5"
    "quotaReleaseQueue deposedAt8 =
       [Some \<lparr>allocAmount = 10, allocPool = 0\<rparr>, None, Some \<lparr>allocAmount = 7, allocPool = 0\<rparr>]"
    "poolCalls deposedAt8 = []"
    by (simp_all add: deposedAt8_def leaderAt8_def)
  have m: "specMinIndex 120 deposedAt8 = 7"
    by (simp add: specMinIndex_def deposedAt8_def leaderAt8_def holdsUpQuota_def
          toReplicaID_def isFollowerActiveSince_def)
  have e: "leaderID electedAt8 = 1" "replicaID electedAt8 = leaderID electedAt8"
    "proposalQuota electedAt8 = None"
    by (simp_all add: electedAt8_def followerAt8_def leaderAt8_def)
  have f: "leaderID followerAt8 = 2" "replicaID followerAt8 \<noteq> leaderID followerAt8"
    "proposalQuota followerAt8 = None"
    by (simp_all add: followerAt8_def leaderAt8_def)
  from follower_with_pool_reconciles [OF h(1), of 0 120] h i
  obtain s where s: "updateProposalQuotaRaftMuLocked 120 2 deposedAt8 = Inr s"
    by blast
  with follower_with_pool_reconciles [OF h(1), of 0 120] h
  have "proposalQuota s = Some 0 \<and> quotaInvariant s \<and>
        poolCalls s = poolCalls deposedAt8 @
          [CallRelease 0 (take (unat (7 - 5 :: 64 word)) (quotaReleaseQueue deposedAt8))] \<and>
        quotaReleaseQueue s = drop (unat (7 - 5 :: 64 word)) (quotaReleaseQueue deposedAt8) \<and>
        proposalQuotaBaseIndex s = 7"
    by (simp add: m b(1))
  then have 1: "proposalQuota s = Some 0 \<and> quotaInvariant s \<and>
        poolCalls s = [CallRelease 0 [Some \<lparr>allocAmount = 10, allocPool = 0\<rparr>, None]] \<and>
        quotaReleaseQueue s = [Some \<lparr>allocAmount = 7, allocPool = 0\<rparr>] \<and>
        proposalQuotaBaseIndex s = 7"
    by (simp add: b)
  have 2: "updateProposalQuotaRaftMuLocked 120 1 electedAt8 = Inl FatalLeaderUninitializedPool"
    using follower_with_pool_reconciles [OF e(1), of 0 120] e by simp
  have 3: "updateProposalQuotaRaftMuLocked 120 2 followerAt8 = Inr followerAt8"
    using follower_with_pool_reconciles [OF f(1), of 0 120] f by simp
  from h i b(1) m s 1 e 2 f 3 show ?thesis
    by blast
qed

end
